theory Spec2Isabelle
  imports Main
begin

section \<open>Python values used by the two scripts\<close>

text \<open>
  The repository holds two scripts: \<^verbatim>\<open>scripts/convert-metadata-to-json.py\<close> (the
  Normalizer) and \<^verbatim>\<open>scripts/migrate-medicines-to-sqlite.py\<close> (the Loader). A Python
  \<^verbatim>\<open>str\<close> is a \<^typ>\<open>string\<close>; a \<^typ>\<open>char\<close> stands for a code point below 256,
  and the character classes below are Python's on that range. The value \<^verbatim>\<open>None\<close> is
  \<^term>\<open>None\<close>, so a cell or a Record value is a \<^typ>\<open>string option\<close>.
\<close>

subsection \<open>str.lower and str.strip\<close>

definition isspace :: "char \<Rightarrow> bool" where
  "isspace c = (let n = (of_char c :: nat) in
     (9 \<le> n \<and> n \<le> 13) \<or> (28 \<le> n \<and> n \<le> 32) \<or> n = 133 \<or> n = 160)"

definition isupper :: "char \<Rightarrow> bool" where
  "isupper c = (let n = (of_char c :: nat) in
     (65 \<le> n \<and> n \<le> 90) \<or> (192 \<le> n \<and> n \<le> 222 \<and> n \<noteq> 215))"

definition lower_char :: "char \<Rightarrow> char" where
  "lower_char c = (if isupper c then char_of (of_char c + 32 :: nat) else c)"

definition lower :: "string \<Rightarrow> string" where
  "lower s = map lower_char s"

definition lstrip :: "string \<Rightarrow> string" where
  "lstrip s = dropWhile isspace s"

definition rstrip :: "string \<Rightarrow> string" where
  "rstrip s = rev (dropWhile isspace (rev s))"

definition strip :: "string \<Rightarrow> string" where
  "strip s = rstrip (lstrip s)"

subsection \<open>dict\<close>

text \<open>
  A Python dict keeps its keys in insertion order and holds each key once: assigning to a
  key that is present replaces the value where the key stands, assigning to a new key
  appends it.
\<close>

type_synonym ('k, 'v) pydict = "('k \<times> 'v) list"

fun dict_set :: "('k, 'v) pydict \<Rightarrow> 'k \<Rightarrow> 'v \<Rightarrow> ('k, 'v) pydict" where
  "dict_set [] k v = [(k, v)]"
| "dict_set ((k', v') # d) k v =
     (if k' = k then (k', v) # d else (k', v') # dict_set d k v)"

definition dict_get :: "('k, 'v) pydict \<Rightarrow> 'k \<Rightarrow> 'v option" where
  "dict_get d k = map_of d k"

definition dict_keys :: "('k, 'v) pydict \<Rightarrow> 'k list" where
  "dict_keys d = map fst d"

definition dict_of_pairs :: "('k \<times> 'v) list \<Rightarrow> ('k, 'v) pydict" where
  "dict_of_pairs ps = foldl (\<lambda>d (k, v). dict_set d k v) [] ps"

datatype py_error =
    AttributeError
  | IntegrityError
  | OperationalError
  | DatabaseError
  | ValueError

section \<open>The Normalizer: convert-metadata-to-json.py\<close>

subsection \<open>csv.DictReader\<close>

text \<open>
  The input of the model is the sequence of rows that \<^verbatim>\<open>csv.reader(f, delimiter='|')\<close>
  yields, each a list of cells; a blank line is the row \<^term>\<open>[]\<close>. The class
  \<^verbatim>\<open>csv.DictReader\<close> of the standard library takes the first row as the field names and
  turns each later row that is not blank into a dict: the cells zipped to the field
  names, the names left over mapped to \<^verbatim>\<open>restval\<close> (\<^verbatim>\<open>None\<close>) when the row is shorter
  than the header, and the cells left over stored as a list under the key \<^verbatim>\<open>restkey\<close>
  (\<^verbatim>\<open>None\<close>) when it is longer. That last entry is the one entry of the dict whose key
  is no string; it stands in a field of its own.
\<close>

record rowdict =
  named :: "(string, string option) pydict"
  extra :: "string list option"

definition dictreader_next :: "string list \<Rightarrow> string list \<Rightarrow> rowdict" where
  "dictreader_next fieldnames row =
     (let d = dict_of_pairs (zip fieldnames (map Some row));
          lf = length fieldnames;
          lr = length row
      in if lf < lr then \<lparr>named = d, extra = Some (drop lf row)\<rparr>
         else if lf > lr then
           \<lparr>named = foldl (\<lambda>d key. dict_set d key None) d (drop lr fieldnames),
            extra = None\<rparr>
         else \<lparr>named = d, extra = None\<rparr>)"

definition dictreader :: "string list list \<Rightarrow> rowdict list" where
  "dictreader table =
     (case table of
        [] \<Rightarrow> []
      | fieldnames # rows \<Rightarrow> map (dictreader_next fieldnames) (filter (\<lambda>row. row \<noteq> []) rows))"

subsection \<open>convert\_csv\_to\_json, lines 20 to 29\<close>

text \<open>
  A Record (the script's \<^verbatim>\<open>cleaned_row\<close>) maps field names to optional text.
  \<^verbatim>\<open>v.strip() if v else v\<close> strips a string that is not empty and leaves the empty string
  and \<^verbatim>\<open>None\<close> as they are. \<^verbatim>\<open>k.lower()\<close> raises AttributeError at the key \<^verbatim>\<open>None\<close>,
  which is there exactly when the row is longer than the header.
\<close>

type_synonym medicine = "(string, string option) pydict"

definition clean_value :: "string option \<Rightarrow> string option" where
  "clean_value v = (case v of None \<Rightarrow> None | Some s \<Rightarrow> if s \<noteq> [] then Some (strip s) else Some s)"

definition clean_row :: "rowdict \<Rightarrow> py_error + medicine" where
  "clean_row row =
     (case extra row of
        Some _ \<Rightarrow> Inl AttributeError
      | None \<Rightarrow> Inr (dict_of_pairs (map (\<lambda>(k, v). (lower k, clean_value v)) (named row))))"

fun convert_loop :: "rowdict list \<Rightarrow> medicine list \<Rightarrow> py_error + medicine list" where
  "convert_loop [] records = Inr records"
| "convert_loop (row # reader) records =
     (case clean_row row of
        Inl e \<Rightarrow> Inl e
      | Inr cleaned_row \<Rightarrow> convert_loop reader (records @ [cleaned_row]))"

definition read_records :: "string list list \<Rightarrow> py_error + medicine list" where
  "read_records table = convert_loop (dictreader table) []"

subsection \<open>str.lower beyond code point 255\<close>

text \<open>
  A \<^verbatim>\<open>str\<close> read from a UTF-8 file can hold any code point. The functions below give
  \<^verbatim>\<open>str.isupper\<close> and \<^verbatim>\<open>str.lower\<close> of one character by its code point. Below 256
  they are \<open>isupper\<close> and \<open>lower_char\<close>. At U+03D2 (GREEK UPSILON WITH HOOK SYMBOL, an
  uppercase letter that has no lowercase form) the character is uppercase and
  \<^verbatim>\<open>str.lower\<close> leaves it as it is. The rest of the Unicode tables is not part of the
  model: there the functions return \<^term>\<open>None\<close>.
\<close>

definition codepoint_isupper :: "nat \<Rightarrow> bool option" where
  "codepoint_isupper n =
     (if n < 256 then Some (isupper (char_of n))
      else if n = 0x3D2 then Some True
      else None)"

definition codepoint_lower :: "nat \<Rightarrow> nat option" where
  "codepoint_lower n =
     (if n < 256 then Some (of_char (lower_char (char_of n)))
      else if n = 0x3D2 then Some 0x3D2
      else None)"

fun lower_codepoints :: "nat list \<Rightarrow> nat list option" where
  "lower_codepoints [] = Some []"
| "lower_codepoints (n # ns) =
     (case codepoint_lower n of
        None \<Rightarrow> None
      | Some m \<Rightarrow>
          (case lower_codepoints ns of
             None \<Rightarrow> None
           | Some ms \<Rightarrow> Some (m # ms)))"

subsection \<open>convert\_csv\_to\_json, lines 31 to 36: json.dump\<close>

text \<open>
  \<^verbatim>\<open>json.dump(records, f, indent=2, ensure_ascii=False)\<close> on a list of dicts whose
  values are strings or \<^verbatim>\<open>None\<close>, as the standard library's encoder writes it. A string
  goes between double quotes with the backslash, the double quote and the characters below
  U+0020 escaped (the short escapes for backspace, form feed, newline, carriage return and
  tab, \<^verbatim>\<open>\u00XX\<close> in lowercase hexadecimal for the others) and every other character as
  it is. A list or dict that is not empty puts each element on a line of its own, indented
  by two spaces for each level, with a comma after every element but the last; the
  separator of a key and its value is a colon and a space; an empty list is \<^verbatim>\<open>[]\<close> and
  an empty dict \<^verbatim>\<open>{}\<close>. The file is written as UTF-8, which encodes equal texts as equal
  bytes; the model compares the texts. The function returns the number of records, and
  its model gives the document next to it.
\<close>

abbreviation DQUOTE :: char where "DQUOTE \<equiv> CHR 0x22"
abbreviation BACKSLASH :: char where "BACKSLASH \<equiv> CHR 0x5C"
abbreviation NEWLINE :: char where "NEWLINE \<equiv> CHR 0x0A"

definition hexdigit :: "nat \<Rightarrow> char" where
  "hexdigit n = ''0123456789abcdef'' ! n"

definition escape_char :: "char \<Rightarrow> string" where
  "escape_char c =
     (if c = BACKSLASH then [BACKSLASH, BACKSLASH]
      else if c = DQUOTE then [BACKSLASH, DQUOTE]
      else if c = CHR 0x08 then [BACKSLASH, CHR ''b'']
      else if c = CHR 0x0C then [BACKSLASH, CHR ''f'']
      else if c = CHR 0x0A then [BACKSLASH, CHR ''n'']
      else if c = CHR 0x0D then [BACKSLASH, CHR ''r'']
      else if c = CHR 0x09 then [BACKSLASH, CHR ''t'']
      else if (of_char c :: nat) < 32 then
        [BACKSLASH, CHR ''u'', CHR ''0'', CHR ''0'',
         hexdigit (of_char c div 16), hexdigit (of_char c mod 16)]
      else [c])"

definition encode_basestring :: "string \<Rightarrow> string" where
  "encode_basestring s = DQUOTE # concat (map escape_char s) @ [DQUOTE]"

fun join :: "string \<Rightarrow> string list \<Rightarrow> string" where
  "join sep [] = []"
| "join sep [x] = x"
| "join sep (x # y # ys) = x @ sep @ join sep (y # ys)"

definition newline_indent :: "nat \<Rightarrow> string" where
  "newline_indent level = NEWLINE # concat (replicate level ''  '')"

definition dumps_value :: "string option \<Rightarrow> string" where
  "dumps_value v = (case v of None \<Rightarrow> ''null'' | Some s \<Rightarrow> encode_basestring s)"

definition dumps_item :: "string \<times> string option \<Rightarrow> string" where
  "dumps_item item = encode_basestring (fst item) @ '': '' @ dumps_value (snd item)"

definition dumps_dict :: "nat \<Rightarrow> medicine \<Rightarrow> string" where
  "dumps_dict level dct =
     (if dct = [] then ''{}''
      else ''{'' @ newline_indent (level + 1)
           @ join ('','' @ newline_indent (level + 1)) (map dumps_item dct)
           @ newline_indent level @ ''}'')"

definition dumps_list :: "nat \<Rightarrow> medicine list \<Rightarrow> string" where
  "dumps_list level lst =
     (if lst = [] then ''[]''
      else ''['' @ newline_indent (level + 1)
           @ join ('','' @ newline_indent (level + 1)) (map (dumps_dict (level + 1)) lst)
           @ newline_indent level @ '']'')"

definition json_dumps :: "medicine list \<Rightarrow> string" where
  "json_dumps records = dumps_list 0 records"


subsection \<open>json.load\<close>





























section \<open>The Loader: migrate-medicines-to-sqlite.py\<close>

subsection \<open>The destination store\<close>

text \<open>
  The store is SQLite as far as the script's statements use it. A column of the script's
  table holds \<^verbatim>\<open>NULL\<close>, a text or (the key) an integer. A table keeps its declared
  columns, its rows (each row lists its columns' values by name, in declaration order) and
  the largest key it has given out, which \<^verbatim>\<open>AUTOINCREMENT\<close> never gives again.
\<close>

datatype sqlval = SqlNull | SqlText string | SqlInteger int

record sql_column =
  col_name :: string
  col_notnull :: bool
  col_autoincrement :: bool

type_synonym sql_row = "(string \<times> sqlval) list"

record sql_table =
  tbl_name :: string
  tbl_columns :: "sql_column list"
  tbl_rows :: "sql_row list"
  tbl_sequence :: int

record sql_index =
  idx_name :: string
  idx_table :: string
  idx_column :: string

record store =
  tables :: "sql_table list"
  indexes :: "sql_index list"

definition empty_store :: store where
  "empty_store = \<lparr>tables = [], indexes = []\<rparr>"

definition find_table :: "store \<Rightarrow> string \<Rightarrow> sql_table option" where
  "find_table s name = find (\<lambda>t. tbl_name t = name) (tables s)"

text \<open>The three kinds of statement the script executes.\<close>

datatype statement =
    CreateTableIfNotExists string "sql_column list"
  | CreateIndexIfNotExists string string string
  | InsertInto string "string list" "sqlval list"

text \<open>
  \<^verbatim>\<open>CREATE TABLE IF NOT EXISTS\<close> does nothing when a table of that name exists, whatever
  its columns; the name of an index is refused. \<^verbatim>\<open>CREATE INDEX IF NOT EXISTS\<close> looks
  the table up first, refuses the name of a table, does nothing when an index of that
  name exists, and only then looks the column up.
\<close>

definition create_table_if_not_exists ::
    "store \<Rightarrow> string \<Rightarrow> sql_column list \<Rightarrow> py_error + store" where
  "create_table_if_not_exists s name cols =
     (if name \<in> set (map tbl_name (tables s)) then Inr s
      else if name \<in> set (map idx_name (indexes s)) then Inl OperationalError
      else Inr (s\<lparr>tables := tables s @
                  [\<lparr>tbl_name = name, tbl_columns = cols, tbl_rows = [], tbl_sequence = 0\<rparr>]\<rparr>))"

definition create_index_if_not_exists ::
    "store \<Rightarrow> string \<Rightarrow> string \<Rightarrow> string \<Rightarrow> py_error + store" where
  "create_index_if_not_exists s name tname cname =
     (case find_table s tname of
        None \<Rightarrow> Inl OperationalError
      | Some t \<Rightarrow>
          if name \<in> set (map tbl_name (tables s)) then Inl OperationalError
          else if name \<in> set (map idx_name (indexes s)) then Inr s
          else if cname \<notin> set (map col_name (tbl_columns t)) then Inl OperationalError
          else Inr (s\<lparr>indexes := indexes s @
                      [\<lparr>idx_name = name, idx_table = tname, idx_column = cname\<rparr>]\<rparr>))"

text \<open>
  \<^verbatim>\<open>INSERT INTO t (columns) VALUES (values)\<close> gives each named column the value at the
  same position, every other column \<^verbatim>\<open>NULL\<close>, and the \<^verbatim>\<open>AUTOINCREMENT\<close> key the next
  integer. A \<^verbatim>\<open>NULL\<close> in a \<^verbatim>\<open>NOT NULL\<close> column is an IntegrityError and no row is added.
\<close>

definition new_row :: "sql_table \<Rightarrow> string list \<Rightarrow> sqlval list \<Rightarrow> sql_row" where
  "new_row t cols vals =
     map (\<lambda>c. (col_name c,
            case map_of (zip cols vals) (col_name c) of
              Some v \<Rightarrow> v
            | None \<Rightarrow> if col_autoincrement c then SqlInteger (tbl_sequence t + 1) else SqlNull))
         (tbl_columns t)"

definition violates_notnull :: "sql_table \<Rightarrow> sql_row \<Rightarrow> bool" where
  "violates_notnull t row =
     list_ex (\<lambda>c. col_notnull c \<and> map_of row (col_name c) = Some SqlNull) (tbl_columns t)"

definition append_row :: "string \<Rightarrow> sql_row \<Rightarrow> sql_table \<Rightarrow> sql_table" where
  "append_row name row t =
     (if tbl_name t = name
      then t\<lparr>tbl_rows := tbl_rows t @ [row], tbl_sequence := tbl_sequence t + 1\<rparr>
      else t)"

definition insert_into ::
    "store \<Rightarrow> string \<Rightarrow> string list \<Rightarrow> sqlval list \<Rightarrow> py_error + store" where
  "insert_into s name cols vals =
     (case find_table s name of
        None \<Rightarrow> Inl OperationalError
      | Some t \<Rightarrow>
          if \<not> list_all (\<lambda>c. c \<in> set (map col_name (tbl_columns t))) cols
               \<or> length cols \<noteq> length vals
          then Inl OperationalError
          else if violates_notnull t (new_row t cols vals) then Inl IntegrityError
          else Inr (s\<lparr>tables := map (append_row name (new_row t cols vals)) (tables s)\<rparr>))"

subsection \<open>The connection: sqlite3's transactions\<close>

text \<open>
  A connection sees the store with its own uncommitted rows (\<open>live\<close>); \<open>durable\<close> is
  what has been committed. As sqlite3 does by default, a transaction is opened before an
  \<^verbatim>\<open>INSERT\<close> and not before a \<^verbatim>\<open>CREATE\<close>, which takes effect at once when no
  transaction is open; \<^verbatim>\<open>commit()\<close> without an open transaction does nothing. The
  connection counts the rows inserted in the open transaction and records, for each
  transaction it commits, how many rows that made durable. A statement that raises leaves
  the connection as it stood when the statement began, the opened transaction apart.
\<close>

record connection =
  live :: store
  durable :: store
  in_transaction :: bool
  uncommitted :: nat
  commit_log :: "nat list"

definition open_connection :: "store \<Rightarrow> connection" where
  "open_connection s =
     \<lparr>live = s, durable = s, in_transaction = False, uncommitted = 0, commit_log = []\<rparr>"

definition schema_changed :: "connection \<Rightarrow> store \<Rightarrow> connection" where
  "schema_changed conn s =
     (if in_transaction conn then conn\<lparr>live := s\<rparr> else conn\<lparr>live := s, durable := s\<rparr>)"

definition cursor_execute ::
    "connection \<Rightarrow> statement \<Rightarrow> (py_error \<times> connection) + connection" where
  "cursor_execute conn stmt =
     (case stmt of
        CreateTableIfNotExists name cols \<Rightarrow>
          (case create_table_if_not_exists (live conn) name cols of
             Inl e \<Rightarrow> Inl (e, conn)
           | Inr s \<Rightarrow> Inr (schema_changed conn s))
      | CreateIndexIfNotExists name tname cname \<Rightarrow>
          (case create_index_if_not_exists (live conn) name tname cname of
             Inl e \<Rightarrow> Inl (e, conn)
           | Inr s \<Rightarrow> Inr (schema_changed conn s))
      | InsertInto name cols vals \<Rightarrow>
          (case insert_into (live conn) name cols vals of
             Inl e \<Rightarrow> Inl (e, conn\<lparr>in_transaction := True\<rparr>)
           | Inr s \<Rightarrow> Inr (conn\<lparr>live := s, in_transaction := True,
                                uncommitted := uncommitted conn + 1\<rparr>)))"

definition commit :: "connection \<Rightarrow> connection" where
  "commit conn =
     (if in_transaction conn
      then conn\<lparr>durable := live conn, in_transaction := False, uncommitted := 0,
                commit_log := commit_log conn @ [uncommitted conn]\<rparr>
      else conn)"

subsection \<open>The files\<close>

text \<open>
  A path holds nothing, the intermediate document or a store. The document is given by
  the value \<^verbatim>\<open>json.load\<close> yields for it, a sequence of Records (the Normalizer's
  output type); its text is the subject of the serializer further down. The progress
  lines the scripts print are left out.
\<close>

datatype file_content = JsonDocument "medicine list" | Database store

type_synonym filesystem = "string \<Rightarrow> file_content option"

definition connect :: "filesystem \<Rightarrow> string \<Rightarrow> py_error + connection" where
  "connect fs db_path =
     (case fs db_path of
        None \<Rightarrow> Inr (open_connection empty_store)
      | Some (Database s) \<Rightarrow> Inr (open_connection s)
      | Some (JsonDocument _) \<Rightarrow> Inl DatabaseError)"

definition write_back :: "filesystem \<Rightarrow> string \<Rightarrow> connection \<Rightarrow> filesystem" where
  "write_back fs db_path conn = fs(db_path \<mapsto> Database (durable conn))"

subsection \<open>create\_database\<close>

definition medicines_columns :: "sql_column list" where
  "medicines_columns =
     [\<lparr>col_name = ''id'', col_notnull = True, col_autoincrement = True\<rparr>,
      \<lparr>col_name = ''registratienummer'', col_notnull = False, col_autoincrement = False\<rparr>,
      \<lparr>col_name = ''soort'', col_notnull = False, col_autoincrement = False\<rparr>,
      \<lparr>col_name = ''productnaam'', col_notnull = True, col_autoincrement = False\<rparr>,
      \<lparr>col_name = ''inschrijvingsdatum'', col_notnull = False, col_autoincrement = False\<rparr>,
      \<lparr>col_name = ''handelsvergunninghouder'', col_notnull = False, col_autoincrement = False\<rparr>,
      \<lparr>col_name = ''afleverstatus'', col_notnull = False, col_autoincrement = False\<rparr>,
      \<lparr>col_name = ''farmaceutischevorm'', col_notnull = False, col_autoincrement = False\<rparr>,
      \<lparr>col_name = ''potentie'', col_notnull = False, col_autoincrement = False\<rparr>,
      \<lparr>col_name = ''procedurenummer'', col_notnull = False, col_autoincrement = False\<rparr>,
      \<lparr>col_name = ''toedieningsweg'', col_notnull = False, col_autoincrement = False\<rparr>,
      \<lparr>col_name = ''aanvullendemonitoring'', col_notnull = False, col_autoincrement = False\<rparr>,
      \<lparr>col_name = ''smpc_filenaam'', col_notnull = False, col_autoincrement = False\<rparr>,
      \<lparr>col_name = ''bijsluiter_filenaam'', col_notnull = False, col_autoincrement = False\<rparr>,
      \<lparr>col_name = ''par_filenaam'', col_notnull = False, col_autoincrement = False\<rparr>,
      \<lparr>col_name = ''spar_filenaam'', col_notnull = False, col_autoincrement = False\<rparr>,
      \<lparr>col_name = ''armm_filenaam'', col_notnull = False, col_autoincrement = False\<rparr>,
      \<lparr>col_name = ''smpc_wijzig_datum'', col_notnull = False, col_autoincrement = False\<rparr>,
      \<lparr>col_name = ''bijsluiter_wijzig_datum'', col_notnull = False, col_autoincrement = False\<rparr>,
      \<lparr>col_name = ''atc'', col_notnull = False, col_autoincrement = False\<rparr>,
      \<lparr>col_name = ''werkzamestoffen'', col_notnull = False, col_autoincrement = False\<rparr>,
      \<lparr>col_name = ''hulpstoffen'', col_notnull = False, col_autoincrement = False\<rparr>,
      \<lparr>col_name = ''productdetail_link'', col_notnull = False, col_autoincrement = False\<rparr>,
      \<lparr>col_name = ''nieuws_links'', col_notnull = False, col_autoincrement = False\<rparr>,
      \<lparr>col_name = ''nieuws_link_datums'', col_notnull = False, col_autoincrement = False\<rparr>,
      \<lparr>col_name = ''referentie'', col_notnull = False, col_autoincrement = False\<rparr>,
      \<lparr>col_name = ''smpc_vorige_versie'', col_notnull = False, col_autoincrement = False\<rparr>,
      \<lparr>col_name = ''smpc_vorige_vorige_versie'', col_notnull = False, col_autoincrement = False\<rparr>]"

definition create_statements :: "statement list" where
  "create_statements =
     [CreateTableIfNotExists ''medicines'' medicines_columns,
      CreateIndexIfNotExists ''idx_productnaam'' ''medicines'' ''productnaam'',
      CreateIndexIfNotExists ''idx_werkzamestoffen'' ''medicines'' ''werkzamestoffen'',
      CreateIndexIfNotExists ''idx_farmaceutischevorm'' ''medicines'' ''farmaceutischevorm'']"

text \<open>Statements executed one after the other; the first that raises ends the run.\<close>

fun execute_each ::
    "connection \<Rightarrow> statement list \<Rightarrow> (py_error \<times> connection) + connection" where
  "execute_each conn [] = Inr conn"
| "execute_each conn (stmt # stmts) =
     (case cursor_execute conn stmt of
        Inl err \<Rightarrow> Inl err
      | Inr conn' \<Rightarrow> execute_each conn' stmts)"

text \<open>
  sqlite3 reports a file that is not a database when the first statement runs; in the
  model \<open>connect\<close> does, and \<open>create_database\<close> raises before it returns either way.
\<close>

definition create_database ::
    "filesystem \<Rightarrow> string \<Rightarrow> (py_error \<times> filesystem) + (connection \<times> filesystem)" where
  "create_database fs db_path =
     (case connect fs db_path of
        Inl e \<Rightarrow> Inl (e, fs)
      | Inr conn \<Rightarrow>
          (case execute_each conn create_statements of
             Inl (e, conn') \<Rightarrow> Inl (e, write_back fs db_path conn')
           | Inr conn' \<Rightarrow> Inr (commit conn', write_back fs db_path (commit conn'))))"

subsection \<open>migrate\_json\_to\_sqlite\<close>

definition insert_columns :: "string list" where
  "insert_columns =
     [''registratienummer'', ''soort'', ''productnaam'', ''inschrijvingsdatum'',
      ''handelsvergunninghouder'', ''afleverstatus'', ''farmaceutischevorm'',
      ''potentie'', ''procedurenummer'', ''toedieningsweg'', ''aanvullendemonitoring'',
      ''smpc_filenaam'', ''bijsluiter_filenaam'', ''par_filenaam'', ''spar_filenaam'',
      ''armm_filenaam'', ''smpc_wijzig_datum'', ''bijsluiter_wijzig_datum'',
      ''atc'', ''werkzamestoffen'', ''hulpstoffen'', ''productdetail_link'',
      ''nieuws_links'', ''nieuws_link_datums'', ''referentie'',
      ''smpc_vorige_versie'', ''smpc_vorige_vorige_versie'']"

text \<open>
  \<^verbatim>\<open>medicine.get(key, '')\<close> is the value under the key, \<^verbatim>\<open>None\<close> included, and the empty
  string only when the key is not in the dict. sqlite3 binds \<^verbatim>\<open>None\<close> as \<^verbatim>\<open>NULL\<close> and
  a \<^verbatim>\<open>str\<close> as text.
\<close>

definition medicine_get :: "medicine \<Rightarrow> string \<Rightarrow> string option" where
  "medicine_get medicine key = (case dict_get medicine key of None \<Rightarrow> Some [] | Some v \<Rightarrow> v)"

definition bind_parameter :: "string option \<Rightarrow> sqlval" where
  "bind_parameter v = (case v of None \<Rightarrow> SqlNull | Some s \<Rightarrow> SqlText s)"

definition insert_parameters :: "medicine \<Rightarrow> sqlval list" where
  "insert_parameters medicine =
     map bind_parameter
       [medicine_get medicine ''registratienummer'',
        medicine_get medicine ''soort'',
        medicine_get medicine ''productnaam'',
        medicine_get medicine ''inschrijvingsdatum'',
        medicine_get medicine ''handelsvergunninghouder'',
        medicine_get medicine ''afleverstatus'',
        medicine_get medicine ''farmaceutischevorm'',
        medicine_get medicine ''potentie'',
        medicine_get medicine ''procedurenummer'',
        medicine_get medicine ''toedieningsweg'',
        medicine_get medicine ''aanvullendemonitoring'',
        medicine_get medicine ''smpc_filenaam'',
        medicine_get medicine ''bijsluiter_filenaam'',
        medicine_get medicine ''par_filenaam'',
        medicine_get medicine ''spar_filenaam'',
        medicine_get medicine ''armm_filenaam'',
        medicine_get medicine ''smpc_wijzig_datum'',
        medicine_get medicine ''bijsluiter_wijzig_datum'',
        medicine_get medicine ''atc'',
        medicine_get medicine ''werkzamestoffen'',
        medicine_get medicine ''hulpstoffen'',
        medicine_get medicine ''productdetail_link'',
        medicine_get medicine ''nieuws_links'',
        medicine_get medicine ''nieuws_link_datums'',
        medicine_get medicine ''referentie'',
        medicine_get medicine ''smpc_vorige_versie'',
        medicine_get medicine ''smpc_vorige_vorige_versie'']"

definition insert_medicine :: "medicine \<Rightarrow> statement" where
  "insert_medicine medicine = InsertInto ''medicines'' insert_columns (insert_parameters medicine)"

definition batch_size :: nat where
  "batch_size = 1000"

fun insert_batch ::
    "connection \<Rightarrow> medicine list \<Rightarrow> (py_error \<times> connection) + connection" where
  "insert_batch conn [] = Inr conn"
| "insert_batch conn (medicine # batch) =
     (case cursor_execute conn (insert_medicine medicine) of
        Inl err \<Rightarrow> Inl err
      | Inr conn' \<Rightarrow> insert_batch conn' batch)"

text \<open>
  The loop \<^verbatim>\<open>for i in range(0, len(medicines), batch_size)\<close>, with the running
  \<^verbatim>\<open>total_inserted\<close>: the slice, its inserts, one commit.
\<close>

function insert_batches ::
    "connection \<Rightarrow> medicine list \<Rightarrow> nat \<Rightarrow> nat \<Rightarrow> (py_error \<times> connection) + (connection \<times> nat)" where
  "insert_batches conn medicines i total_inserted =
     (if i < length medicines then
        (let batch = take batch_size (drop i medicines) in
         case insert_batch conn batch of
           Inl err \<Rightarrow> Inl err
         | Inr conn' \<Rightarrow>
             insert_batches (commit conn') medicines (i + batch_size)
               (total_inserted + length batch))
      else Inr (conn, total_inserted))"
  by pat_completeness auto
termination
  by (relation "measure (\<lambda>(conn, medicines, i, total_inserted). length medicines - i)")
     (auto simp: batch_size_def)

datatype outcome = Returned | SysExit int | Raised py_error

text \<open>
  The whole script function. A path that holds a store is no JSON text, so \<^verbatim>\<open>json.load\<close>
  raises a ValueError there. Closing the connection drops what is not committed, at the
  end as well as when a statement raises.
\<close>

definition migrate_json_to_sqlite :: "filesystem \<Rightarrow> string \<Rightarrow> string \<Rightarrow> outcome \<times> filesystem" where
  "migrate_json_to_sqlite fs json_path db_path =
     (case fs json_path of
        None \<Rightarrow> (SysExit 1, fs)
      | Some (Database _) \<Rightarrow> (Raised ValueError, fs)
      | Some (JsonDocument medicines) \<Rightarrow>
          (case create_database fs db_path of
             Inl (e, fs') \<Rightarrow> (Raised e, fs')
           | Inr (conn, fs') \<Rightarrow>
               (case insert_batches conn medicines 0 0 of
                  Inl (e, conn') \<Rightarrow> (Raised e, write_back fs' db_path conn')
                | Inr (conn', total_inserted) \<Rightarrow> (Returned, write_back fs' db_path conn'))))"

subsection \<open>Predicates of the statements below\<close>

text \<open>
  A connection has the schema when its \<^verbatim>\<open>medicines\<close> table has the declared columns; a
  Record can be inserted when its product name is not \<^verbatim>\<open>None\<close>; a store is well formed
  when no two tables and no two indexes share a name, as SQLite keeps it;
  \<open>created_store\<close> is what \<open>create_database\<close> makes of no file at all.
\<close>

definition has_schema :: "connection \<Rightarrow> bool" where
  "has_schema conn =
     (case find_table (live conn) ''medicines'' of
        None \<Rightarrow> False
      | Some t \<Rightarrow> tbl_columns t = medicines_columns)"

definition insertable :: "medicine \<Rightarrow> bool" where
  "insertable medicine = (dict_get medicine ''productnaam'' \<noteq> Some None)"

definition wf_store :: "store \<Rightarrow> bool" where
  "wf_store s = (distinct (map tbl_name (tables s)) \<and> distinct (map idx_name (indexes s)))"

definition created_store :: store where
  "created_store =
     \<lparr>tables = [\<lparr>tbl_name = ''medicines'', tbl_columns = medicines_columns, tbl_rows = [],
                  tbl_sequence = 0\<rparr>],
      indexes =
        [\<lparr>idx_name = ''idx_productnaam'', idx_table = ''medicines'', idx_column = ''productnaam''\<rparr>,
         \<lparr>idx_name = ''idx_werkzamestoffen'', idx_table = ''medicines'',
          idx_column = ''werkzamestoffen''\<rparr>,
         \<lparr>idx_name = ''idx_farmaceutischevorm'', idx_table = ''medicines'',
          idx_column = ''farmaceutischevorm''\<rparr>]\<rparr>"

section \<open>Facts about the Python values\<close>

subsection \<open>dict\<close>

lemma map_of_dict_set: "map_of (dict_set d k v) = (map_of d)(k \<mapsto> v)"
  by (induction d k v rule: dict_set.induct) (auto simp: fun_eq_iff)

lemma keys_dict_set:
  "map fst (dict_set d k v) = (if k \<in> fst ` set d then map fst d else map fst d @ [k])"
  by (induction d k v rule: dict_set.induct) (auto)

lemma dict_set_fresh: "k \<notin> fst ` set d \<Longrightarrow> dict_set d k v = d @ [(k, v)]"
  by (induction d k v rule: dict_set.induct) auto

lemma foldl_dict_set_distinct:
  "distinct (map fst ps) \<Longrightarrow> fst ` set ps \<inter> fst ` set d = {} \<Longrightarrow>
   foldl (\<lambda>d (k, v). dict_set d k v) d ps = d @ ps"
proof (induction ps arbitrary: d)
  case Nil
  then show ?case by simp
next
  case (Cons p ps)
  obtain k v where p: "p = (k, v)" by (cases p)
  have fresh: "k \<notin> fst ` set d" using Cons.prems(2) p by auto
  have step: "dict_set d k v = d @ [(k, v)]" using fresh by (rule dict_set_fresh)
  have "fst ` set ps \<inter> fst ` set (d @ [(k, v)]) = {}"
    using Cons.prems p by auto
  with Cons.IH [of "d @ [(k, v)]"] Cons.prems(1) show ?case
    by (simp add: p step)
qed

lemma dict_of_pairs_distinct: "distinct (map fst ps) \<Longrightarrow> dict_of_pairs ps = ps"
  using foldl_dict_set_distinct [of ps "[]"] by (simp add: dict_of_pairs_def)

lemma keys_foldl_dict_set:
  "set (map fst (foldl (\<lambda>d (k, v). dict_set d k v) d ps)) = fst ` set d \<union> fst ` set ps"
proof (induction ps arbitrary: d)
  case Nil
  then show ?case by simp
next
  case (Cons p ps)
  obtain k v where p: "p = (k, v)" by (cases p)
  have "set (map fst (dict_set d k v)) = insert k (fst ` set d)"
    by (auto simp: keys_dict_set)
  with Cons.IH [of "dict_set d k v"] show ?case
    by (auto simp: p)
qed

lemma keys_dict_of_pairs: "set (dict_keys (dict_of_pairs ps)) = fst ` set ps"
  using keys_foldl_dict_set [of "[]" ps] by (simp add: dict_of_pairs_def dict_keys_def)

lemma foldl_dict_set_const:
  "distinct ks \<Longrightarrow> set ks \<inter> fst ` set d = {} \<Longrightarrow>
   foldl (\<lambda>d key. dict_set d key v) d ks = d @ map (\<lambda>k. (k, v)) ks"
proof (induction ks arbitrary: d)
  case Nil
  then show ?case by simp
next
  case (Cons k ks)
  have step: "dict_set d k v = d @ [(k, v)]"
    using Cons.prems(2) by (intro dict_set_fresh) auto
  have "set ks \<inter> fst ` set (d @ [(k, v)]) = {}" using Cons.prems by auto
  with Cons.IH [of "d @ [(k, v)]"] Cons.prems(1) show ?case by (simp add: step)
qed

lemma map_zip_both:
  "map (\<lambda>(k, v). (f k, g v)) (zip xs ys) = zip (map f xs) (map g ys)"
proof (induction xs arbitrary: ys)
  case Nil
  then show ?case by simp
next
  case (Cons x xs)
  then show ?case by (cases ys) simp_all
qed

lemma zip_pad:
  "length xs \<le> length hs \<Longrightarrow>
   zip hs (xs @ replicate (length hs - length xs) v)
     = zip hs xs @ map (\<lambda>k. (k, v)) (drop (length xs) hs)"
proof (induction hs arbitrary: xs)
  case Nil
  then show ?case by simp
next
  case (Cons h hs)
  show ?case
  proof (cases xs)
    case Nil
    then show ?thesis by (simp add: zip_replicate2 flip: replicate_Suc)
  next
    case (Cons x xs')
    with Cons.prems Cons.IH [of xs'] show ?thesis by simp
  qed
qed

lemma fst_set_zip_take:
  "length xs \<le> length hs \<Longrightarrow> fst ` set (zip hs xs) = set (take (length xs) hs)"
proof (induction hs arbitrary: xs)
  case Nil
  then show ?case by simp
next
  case (Cons h hs)
  then show ?case by (cases xs) auto
qed

lemma map_of_zip_nth':
  "distinct ks \<Longrightarrow> length ks = length vs \<Longrightarrow> j < length ks \<Longrightarrow>
   map_of (zip ks vs) (ks ! j) = Some (vs ! j)"
  by (simp add: map_of_zip_nth)

lemma list_all2_total:
  "(\<And>x. x \<in> set xs \<Longrightarrow> \<exists>y. P x y) \<Longrightarrow> \<exists>ys. list_all2 P xs ys"
proof (induction xs)
  case Nil
  then show ?case by simp
next
  case (Cons x xs)
  then obtain y ys where "P x y" "list_all2 P xs ys" by (meson list.set_intros)
  then have "list_all2 P (x # xs) (y # ys)" by simp
  then show ?case by blast
qed

subsection \<open>lower and strip\<close>

lemma isupper_lower_char: "\<not> isupper (lower_char c)"
  unfolding lower_char_def isupper_def Let_def by (auto simp: of_char_of)

lemma lower_char_idem: "lower_char (lower_char c) = lower_char c"
  using isupper_lower_char [of c] by (simp add: lower_char_def)

lemma lower_idem: "lower (lower s) = lower s"
  by (simp add: lower_def lower_char_idem)

lemma lower_no_upper: "c \<in> set (lower s) \<Longrightarrow> \<not> isupper c"
  by (auto simp: lower_def isupper_lower_char)

lemma rstrip_decomp: "t = rstrip t @ rev (takeWhile isspace (rev t))"
proof -
  have "rstrip t @ rev (takeWhile isspace (rev t))
          = rev (takeWhile isspace (rev t) @ dropWhile isspace (rev t))"
    by (simp only: rstrip_def rev_append)
  also have "\<dots> = rev (rev t)" by (simp only: takeWhile_dropWhile_id)
  finally show ?thesis by simp
qed

lemma strip_decomp:
  "\<exists>a b. s = a @ strip s @ b \<and> (\<forall>c \<in> set a. isspace c) \<and> (\<forall>c \<in> set b. isspace c)"
proof -
  let ?a = "takeWhile isspace s"
  let ?b = "rev (takeWhile isspace (rev (lstrip s)))"
  have "s = ?a @ lstrip s" by (simp add: lstrip_def)
  also have "lstrip s = strip s @ ?b"
    using rstrip_decomp [of "lstrip s"] by (simp add: strip_def)
  finally have "s = ?a @ strip s @ ?b" .
  moreover have "\<forall>c \<in> set ?a. isspace c" by (auto dest: set_takeWhileD)
  moreover have "\<forall>c \<in> set ?b. isspace c" by (auto dest: set_takeWhileD)
  ultimately show ?thesis by blast
qed

lemma strip_ends:
  assumes "strip s \<noteq> []"
  shows "\<not> isspace (hd (strip s)) \<and> \<not> isspace (last (strip s))"
proof -
  let ?t = "lstrip s"
  have ne: "dropWhile isspace (rev ?t) \<noteq> []"
    using assms by (simp add: strip_def rstrip_def)
  have "last (strip s) = hd (dropWhile isspace (rev ?t))"
    using ne by (simp add: strip_def rstrip_def last_rev)
  then have l: "\<not> isspace (last (strip s))"
    using ne hd_dropWhile [of isspace "rev ?t"] by simp
  have tne: "?t \<noteq> []" using ne by auto
  have "?t = strip s @ rev (takeWhile isspace (rev ?t))"
    using rstrip_decomp [of ?t] by (simp add: strip_def)
  then have "hd ?t = hd (strip s @ rev (takeWhile isspace (rev ?t)))" by simp
  then have "hd (strip s) = hd ?t" using assms by simp
  moreover have "\<not> isspace (hd ?t)"
    using tne hd_dropWhile [of isspace s] by (simp add: lstrip_def)
  ultimately show ?thesis using l by simp
qed

subsection \<open>Code points\<close>

lemma lower_codepoints_of_string:
  "lower_codepoints (map of_char s) = Some (map of_char (lower s))"
  by (induction s) (simp_all add: lower_def codepoint_lower_def)

lemma codepoint_isupper_of_char: "codepoint_isupper (of_char c) = Some (isupper c)"
  by (simp add: codepoint_isupper_def)

section \<open>The Normalizer's records\<close>

lemma convert_loop_Inr:
  "convert_loop reader records = Inr out \<longleftrightarrow>
   (\<exists>cleaned. list_all2 (\<lambda>row r. clean_row row = Inr r) reader cleaned \<and> out = records @ cleaned)"
proof (induction reader arbitrary: records)
  case Nil
  then show ?case by auto
next
  case (Cons row reader)
  show ?case
  proof (cases "clean_row row")
    case (Inl e)
    then show ?thesis by (auto simp: list_all2_Cons1)
  next
    case (Inr r)
    then show ?thesis by (auto simp: Cons.IH list_all2_Cons1)
  qed
qed

lemma clean_row_keys:
  "clean_row row = Inr r \<Longrightarrow> set (dict_keys r) = lower ` fst ` set (named row)"
  by (auto simp: clean_row_def keys_dict_of_pairs image_image split: option.splits prod.splits)
     (force)+

lemma extra_dictreader_next:
  "extra (dictreader_next fieldnames row) = None \<longleftrightarrow> length row \<le> length fieldnames"
  by (auto simp: dictreader_next_def Let_def)

lemma clean_row_ok: "extra row = None \<Longrightarrow> \<exists>r. clean_row row = Inr r"
  by (simp add: clean_row_def)

lemma clean_row_Inr_extra: "clean_row row = Inr r \<Longrightarrow> extra row = None"
  by (auto simp: clean_row_def split: option.splits)

lemma named_dictreader_next:
  assumes "distinct header" and "length row \<le> length header"
  shows "named (dictreader_next header row)
           = zip header (map Some row @ replicate (length header - length row) None)"
proof -
  let ?d = "zip header (map Some row)"
  have d: "dict_of_pairs ?d = ?d"
    using assms(1) by (intro dict_of_pairs_distinct) (simp add: distinct_take map_fst_zip_take)
  show ?thesis
  proof (cases "length row = length header")
    case True
    then show ?thesis by (simp add: dictreader_next_def Let_def d)
  next
    case False
    with assms(2) have lt: "length row < length header" by simp
    have fstd: "fst ` set ?d = set (take (length row) header)"
      using fst_set_zip_take [of "map Some row" header] assms(2) by simp
    have "distinct (take (length row) header @ drop (length row) header)"
      using assms(1) by simp
    then have disj: "set (drop (length row) header) \<inter> fst ` set ?d = {}"
      unfolding fstd distinct_append by blast
    have "foldl (\<lambda>d key. dict_set d key None) ?d (drop (length row) header)
            = ?d @ map (\<lambda>k. (k, None)) (drop (length row) header)"
      using assms(1) disj by (intro foldl_dict_set_const) (simp_all)
    also have "\<dots> = zip header (map Some row @ replicate (length header - length row) None)"
      using zip_pad [of "map Some row" header None] assms(2) by simp
    finally show ?thesis using lt by (simp add: dictreader_next_def Let_def d)
  qed
qed

lemma read_records_nth:
  assumes "read_records (header # rows) = Inr records"
  shows "length records = length (filter (\<lambda>row. row \<noteq> []) rows)"
    and "i < length (filter (\<lambda>row. row \<noteq> []) rows) \<Longrightarrow>
         clean_row (dictreader_next header (filter (\<lambda>row. row \<noteq> []) rows ! i)) = Inr (records ! i)"
proof -
  from assms have all2: "list_all2 (\<lambda>row r. clean_row row = Inr r)
      (map (dictreader_next header) (filter (\<lambda>row. row \<noteq> []) rows)) records"
    by (simp add: read_records_def dictreader_def convert_loop_Inr)
  then show "length records = length (filter (\<lambda>row. row \<noteq> []) rows)"
    by (auto dest: list_all2_lengthD)
  show "clean_row (dictreader_next header (filter (\<lambda>row. row \<noteq> []) rows ! i)) = Inr (records ! i)"
    if "i < length (filter (\<lambda>row. row \<noteq> []) rows)"
    using all2 that by (auto simp: list_all2_conv_all_nth)
qed

lemma clean_row_distinct:
  assumes "distinct (map lower header)" and "length row \<le> length header"
  shows "clean_row (dictreader_next header row)
           = Inr (zip (map lower header)
                   (map clean_value (map Some row @ replicate (length header - length row) None)))"
proof -
  let ?vals = "map Some row @ replicate (length header - length row) None"
  have dh: "distinct header" using assms(1) by (simp add: distinct_map)
  have named: "named (dictreader_next header row) = zip header ?vals"
    using dh assms(2) by (rule named_dictreader_next)
  have ex: "extra (dictreader_next header row) = None"
    using assms(2) by (simp add: extra_dictreader_next)
  have len: "length ?vals = length header" using assms(2) by simp
  have m: "map (\<lambda>(k, v). (lower k, clean_value v)) (zip header ?vals)
             = zip (map lower header) (map clean_value ?vals)"
    by (rule map_zip_both)
  have "map fst (zip (map lower header) (map clean_value ?vals)) = map lower header"
    using len by (simp add: map_fst_zip)
  with assms(1) have "dict_of_pairs (zip (map lower header) (map clean_value ?vals))
                        = zip (map lower header) (map clean_value ?vals)"
    by (intro dict_of_pairs_distinct) simp
  with named ex m show ?thesis by (simp add: clean_row_def)
qed

lemma keys_foldl_dict_set_const:
  "set (map fst (foldl (\<lambda>d key. dict_set d key v) d ks)) = fst ` set d \<union> set ks"
proof (induction ks arbitrary: d)
  case Nil
  then show ?case by simp
next
  case (Cons k ks)
  have "set (map fst (dict_set d k v)) = insert k (fst ` set d)"
    by (auto simp: keys_dict_set)
  with Cons.IH [of "dict_set d k v"] show ?case by auto
qed

lemma named_keys:
  assumes "length row \<le> length header"
  shows "fst ` set (named (dictreader_next header row)) = set header"
proof -
  let ?d = "dict_of_pairs (zip header (map Some row))"
  have d: "fst ` set ?d = set (take (length row) header)"
    using keys_dict_of_pairs [of "zip header (map Some row)"]
      fst_set_zip_take [of "map Some row" header] assms
    by (simp add: dict_keys_def)
  show ?thesis
  proof (cases "length row = length header")
    case True
    then show ?thesis using d by (simp add: dictreader_next_def Let_def)
  next
    case False
    with assms have lt: "length row < length header" by simp
    have "fst ` set (foldl (\<lambda>d key. dict_set d key None) ?d (drop (length row) header))
            = set (take (length row) header) \<union> set (drop (length row) header)"
      using keys_foldl_dict_set_const [of None ?d "drop (length row) header"] d by simp
    also have "\<dots> = set header" by (metis append_take_drop_id set_append)
    finally show ?thesis using lt by (simp add: dictreader_next_def Let_def)
  qed
qed

lemma record_keys:
  assumes "read_records (header # rows) = Inr records" and "medicine \<in> set records"
  shows "set (dict_keys medicine) = lower ` set header"
proof -
  let ?data = "filter (\<lambda>row. row \<noteq> []) rows"
  from assms(2) obtain i where i: "i < length records" "records ! i = medicine"
    by (auto simp: in_set_conv_nth)
  from read_records_nth(1) [OF assms(1)] i(1) have "i < length ?data" by simp
  from read_records_nth(2) [OF assms(1) this] i(2)
  have cr: "clean_row (dictreader_next header (?data ! i)) = Inr medicine" by simp
  then have "extra (dictreader_next header (?data ! i)) = None" by (rule clean_row_Inr_extra)
  then have "length (?data ! i) \<le> length header" by (simp add: extra_dictreader_next)
  then have "fst ` set (named (dictreader_next header (?data ! i))) = set header"
    by (rule named_keys)
  with clean_row_keys [OF cr] show ?thesis by simp
qed

section \<open>Reading back what json.dump wrote\<close>
































lemma json_dumps_example:
  "json_dumps [[(''productnaam'', Some ''Aspirin 500mg''), (''soort'', None)]]
     = ''['' @ [NEWLINE] @ ''  {'' @ [NEWLINE]
       @ ''    '' @ [DQUOTE] @ ''productnaam'' @ [DQUOTE] @ '': '' @ [DQUOTE] @ ''Aspirin 500mg''
       @ [DQUOTE] @ '','' @ [NEWLINE]
       @ ''    '' @ [DQUOTE] @ ''soort'' @ [DQUOTE] @ '': null'' @ [NEWLINE]
       @ ''  }'' @ [NEWLINE] @ '']''"
  by code_simp

subsection \<open>Claims about the Normalizer\<close>

text \<open>
  Claim C3. A table is the header row followed by the rows of the file. When no row has
  more cells than the header (a longer row makes \<^verbatim>\<open>k.lower()\<close> raise), the Normalizer
  returns one Record for each row that is not blank, in the order of the rows: the
  \<open>i\<close>-th Record is the cleaned dict of the \<open>i\<close>-th such row. With no blank line in the
  file there are as many Records as rows.
\<close>

theorem normalizer_one_record_per_row:
  assumes "\<forall>row \<in> set rows. length row \<le> length header"
  shows "\<exists>records. read_records (header # rows) = Inr records
           \<and> length records = length (filter (\<lambda>row. row \<noteq> []) rows)
           \<and> (\<forall>i < length records.
                 clean_row (dictreader_next header (filter (\<lambda>row. row \<noteq> []) rows ! i))
                   = Inr (records ! i))
           \<and> ([] \<notin> set rows \<longrightarrow> length records = length rows)"
proof -
  let ?data = "filter (\<lambda>row. row \<noteq> []) rows"
  let ?reader = "map (dictreader_next header) ?data"
  have "\<exists>r. clean_row x = Inr r" if "x \<in> set ?reader" for x
  proof -
    from that obtain row where "row \<in> set rows" "x = dictreader_next header row" by auto
    with assms have "extra x = None" by (simp add: extra_dictreader_next)
    then show ?thesis by (rule clean_row_ok)
  qed
  then obtain cleaned where all2: "list_all2 (\<lambda>row r. clean_row row = Inr r) ?reader cleaned"
    using list_all2_total [of ?reader "\<lambda>row r. clean_row row = Inr r"] by blast
  then have run: "read_records (header # rows) = Inr cleaned"
    by (simp add: read_records_def dictreader_def convert_loop_Inr)
  have len: "length cleaned = length ?data"
    using all2 by (auto dest: list_all2_lengthD)
  have nth: "clean_row (dictreader_next header (?data ! i)) = Inr (cleaned ! i)"
    if "i < length cleaned" for i
    using all2 that len by (auto simp: list_all2_conv_all_nth)
  have "length cleaned = length rows" if "[] \<notin> set rows"
  proof -
    from that have "?data = rows" by (induction rows) auto
    with len show ?thesis by simp
  qed
  with run len nth show ?thesis by blast
qed

theorem normalizer_one_record_per_row_witness:
  "\<exists>records. read_records [[''RegistratieNummer'', ''ProductNaam''],
                              [''REG123'', '' Aspirin 500mg ''], [], [''REG9'']] = Inr records
     \<and> length records = 2"
proof -
  have "\<forall>row \<in> set [[''REG123'', '' Aspirin 500mg ''], [], [''REG9'']].
          length row \<le> length [''RegistratieNummer'', ''ProductNaam'']"
    by simp
  from normalizer_one_record_per_row [OF this] show ?thesis by auto
qed

text \<open>
  Claim C4. Take a header whose names stay distinct in lowercase, the \<open>i\<close>-th data row
  and the \<open>j\<close>-th column. The Record holds, under the lowercase name of the column: the
  cell without its leading and trailing whitespace when the cell is a string that is not
  empty (what was cut off is whitespace only, and what is left neither starts nor ends
  with whitespace); the empty string when the cell is empty; and \<^verbatim>\<open>None\<close>, not the
  empty string, when the row has no cell in that column.
\<close>

theorem normalizer_values_stripped:
  assumes run: "read_records (header # rows) = Inr records"
      and dist: "distinct (map lower header)"
      and i: "i < length (filter (\<lambda>row. row \<noteq> []) rows)"
      and j: "j < length header"
  shows "let row = filter (\<lambda>row. row \<noteq> []) rows ! i;
             v = dict_get (records ! i) (lower (header ! j))
         in (length row \<le> j \<longrightarrow> v = Some None)
          \<and> (j < length row \<longrightarrow> row ! j = [] \<longrightarrow> v = Some (Some []))
          \<and> (j < length row \<longrightarrow> row ! j \<noteq> [] \<longrightarrow>
               v = Some (Some (strip (row ! j)))
               \<and> (\<exists>a b. row ! j = a @ strip (row ! j) @ b
                      \<and> (\<forall>c \<in> set a. isspace c) \<and> (\<forall>c \<in> set b. isspace c))
               \<and> (strip (row ! j) = []
                    \<or> \<not> isspace (hd (strip (row ! j))) \<and> \<not> isspace (last (strip (row ! j)))))"
proof -
  let ?row = "filter (\<lambda>row. row \<noteq> []) rows ! i"
  let ?vals = "map Some ?row @ replicate (length header - length ?row) None"
  have cr: "clean_row (dictreader_next header ?row) = Inr (records ! i)"
    using run i by (rule read_records_nth(2))
  then have "extra (dictreader_next header ?row) = None" by (rule clean_row_Inr_extra)
  then have le: "length ?row \<le> length header" by (simp add: extra_dictreader_next)
  have rec: "records ! i = zip (map lower header) (map clean_value ?vals)"
    using clean_row_distinct [OF dist le] cr by simp
  have len: "length (map lower header) = length (map clean_value ?vals)" using le by simp
  have "map_of (zip (map lower header) (map clean_value ?vals)) (map lower header ! j)
          = Some (map clean_value ?vals ! j)"
    using dist len j by (intro map_of_zip_nth') simp_all
  moreover have "map clean_value ?vals ! j = clean_value (?vals ! j)"
    by (rule nth_map) (use j le in simp)
  moreover have "map lower header ! j = lower (header ! j)"
    by (rule nth_map) (rule j)
  ultimately have v: "dict_get (records ! i) (lower (header ! j)) = Some (clean_value (?vals ! j))"
    unfolding dict_get_def rec by (simp only:)
  have short: "?vals ! j = None" if "length ?row \<le> j"
    using that j by (simp add: nth_append)
  have cell: "?vals ! j = Some (?row ! j)" if "j < length ?row"
    using that by (simp add: nth_append)
  show ?thesis
    unfolding Let_def
    using v short cell strip_decomp [of "?row ! j"] strip_ends [of "?row ! j"]
    by (auto simp: clean_value_def)
qed

theorem normalizer_values_stripped_witness:
  "dict_get [(''registratienummer'', Some ''REG123''), (''productnaam'', Some ''Aspirin 500mg''),
             (''soort'', None)] ''productnaam''
     = Some (Some (strip '' Aspirin 500mg ''))
   \<and> strip '' Aspirin 500mg '' = ''Aspirin 500mg''"
proof -
  have run: "read_records [[''RegistratieNummer'', ''ProductNaam'', ''Soort''],
                           [''REG123'', '' Aspirin 500mg '']]
     = Inr [[(''registratienummer'', Some ''REG123''), (''productnaam'', Some ''Aspirin 500mg''),
             (''soort'', None)]]"
    by code_simp
  have d: "distinct (map lower [''RegistratieNummer'', ''ProductNaam'', ''Soort''])"
    by code_simp
  have l: "lower ''ProductNaam'' = ''productnaam''" by code_simp
  have s: "strip '' Aspirin 500mg '' = ''Aspirin 500mg''" by code_simp
  from normalizer_values_stripped [OF run d, of 0 1] l s show ?thesis
    by (simp add: Let_def)
qed

text \<open>
  Claim C8, as amended. The claim says that every key is lowercase whatever the header.
  A key is a header cell under \<^verbatim>\<open>str.lower\<close>, and \<^verbatim>\<open>str.lower\<close> leaves some
  uppercase characters beyond code point 255 as they are (the counterexample follows the
  witness). What holds, and is proved here: every key of every Record the Normalizer
  returns is a cell of the header under \<^verbatim>\<open>str.lower\<close>; and for headers made of code
  points below 256, the characters of this model, the key has no uppercase character and
  lowering it again changes nothing.
\<close>

theorem normalizer_keys_lowercase:
  assumes "read_records (header # rows) = Inr records"
      and "medicine \<in> set records"
      and "k \<in> set (dict_keys medicine)"
  shows "(\<exists>h \<in> set header. k = lower h)
         \<and> lower k = k
         \<and> (\<forall>c \<in> set k. \<not> isupper c)"
proof -
  have "set (dict_keys medicine) = lower ` set header"
    using assms(1,2) by (rule record_keys)
  with assms(3) obtain h where h: "h \<in> set header" "k = lower h" by auto
  have "lower k = k" by (simp add: h(2) lower_idem)
  moreover have "\<forall>c \<in> set k. \<not> isupper c"
    using lower_no_upper [of _ h] by (simp add: h(2))
  ultimately show ?thesis using h by blast
qed

theorem normalizer_keys_lowercase_witness:
  "read_records [[''RegistratieNummer'', ''ProductNaam''], [''REG123'', '' Aspirin 500mg '']]
     = Inr [[(''registratienummer'', Some ''REG123''), (''productnaam'', Some ''Aspirin 500mg'')]]
   \<and> ''productnaam'' = lower ''ProductNaam''
   \<and> lower ''productnaam'' = ''productnaam''
   \<and> list_all (\<lambda>c. \<not> isupper c) ''productnaam''"
proof -
  let ?m = "[(''registratienummer'', Some ''REG123''), (''productnaam'', Some ''Aspirin 500mg'')]"
  have run: "read_records [[''RegistratieNummer'', ''ProductNaam''], [''REG123'', '' Aspirin 500mg '']]
     = Inr [?m]"
    by code_simp
  have l: "''productnaam'' = lower ''ProductNaam''" by code_simp
  have "(\<exists>h \<in> set [''RegistratieNummer'', ''ProductNaam'']. ''productnaam'' = lower h)
        \<and> lower ''productnaam'' = ''productnaam''
        \<and> (\<forall>c \<in> set ''productnaam''. \<not> isupper c)"
    by (rule normalizer_keys_lowercase [OF run, of ?m]) (simp_all add: dict_keys_def)
  with run l show ?thesis unfolding list_all_iff by blast
qed

text \<open>
  Claim C8, the counterexample to the claim as it is written. The key of a header cell is
  the cell under \<^verbatim>\<open>str.lower\<close> (line 28). For the cell \<^verbatim>\<open>PRODUCTNAAM\<close> followed by
  U+03D2, \<^verbatim>\<open>str.lower\<close> gives \<^verbatim>\<open>productnaam\<close> followed by U+03D2, and U+03D2 is an
  uppercase character: the key is not lowercase.
\<close>

theorem normalizer_keys_lowercase_counterexample:
  "lower_codepoints [80, 82, 79, 68, 85, 67, 84, 78, 65, 65, 77, 0x3D2]
     = Some [112, 114, 111, 100, 117, 99, 116, 110, 97, 97, 109, 0x3D2]
   \<and> codepoint_isupper 0x3D2 = Some True
   \<and> 0x3D2 \<in> set [112, 114, 111, 100, 117, 99, 116, 110, 97, 97, 109, 0x3D2 :: nat]"
  by code_simp



section \<open>The Loader's insert\<close>

lemma map_of_map_key:
  "distinct (map f xs) \<Longrightarrow> x \<in> set xs \<Longrightarrow> map_of (map (\<lambda>c. (f c, g c)) xs) (f x) = Some (g x)"
proof (induction xs)
  case Nil
  then show ?case by simp
next
  case (Cons y ys)
  then show ?case by (cases "x = y") (auto simp: rev_image_eqI)
qed

lemma find_append_row:
  "find (\<lambda>t. tbl_name t = name) ts = Some t \<Longrightarrow>
   find (\<lambda>t. tbl_name t = name) (map (append_row name row) ts) = Some (append_row name row t)"
proof (induction ts)
  case Nil
  then show ?case by simp
next
  case (Cons u us)
  then show ?case by (cases "tbl_name u = name") (auto simp: append_row_def)
qed

lemma find_table_name: "find_table s name = Some t \<Longrightarrow> tbl_name t = name"
  by (auto simp: find_table_def find_Some_iff)

lemma distinct_medicines_columns: "distinct (map col_name medicines_columns)"
  unfolding medicines_columns_def by simp

lemma insert_columns_are_columns:
  "map col_name medicines_columns = ''id'' # insert_columns"
  unfolding medicines_columns_def insert_columns_def by simp

lemma length_insert_columns: "length insert_columns = 27"
  unfolding insert_columns_def by simp

lemma length_insert_parameters: "length (insert_parameters medicine) = 27"
  unfolding insert_parameters_def by simp

lemma parameter_of_column:
  "field \<in> set insert_columns \<Longrightarrow>
   map_of (zip insert_columns (insert_parameters medicine)) field
     = Some (bind_parameter (medicine_get medicine field))"
  unfolding insert_columns_def insert_parameters_def by auto

lemma id_not_insert_column: "''id'' \<notin> set insert_columns"
  unfolding insert_columns_def by simp

lemma all_insert_columns_known:
  "list_all (\<lambda>c. c \<in> set (map col_name medicines_columns)) insert_columns"
  by (simp add: insert_columns_are_columns list_all_iff)

lemma new_row_names:
  "tbl_columns t = medicines_columns \<Longrightarrow> map fst (new_row t cols vals) = map col_name medicines_columns"
  by (simp add: new_row_def comp_def)

lemma new_row_lookup:
  assumes "distinct (map col_name (tbl_columns t))" and "c \<in> set (tbl_columns t)"
  shows "map_of (new_row t cols vals) (col_name c)
           = Some (case map_of (zip cols vals) (col_name c) of
                     Some v \<Rightarrow> v
                   | None \<Rightarrow> if col_autoincrement c then SqlInteger (tbl_sequence t + 1) else SqlNull)"
  unfolding new_row_def
  by (rule map_of_map_key [where f = col_name, OF assms])

lemma new_row_id:
  assumes "tbl_columns t = medicines_columns"
  shows "map_of (new_row t insert_columns (insert_parameters medicine)) ''id''
           = Some (SqlInteger (tbl_sequence t + 1))"
proof -
  let ?idcol = "\<lparr>col_name = ''id'', col_notnull = True, col_autoincrement = True\<rparr>"
  have mem: "?idcol \<in> set (tbl_columns t)" by (simp add: assms medicines_columns_def)
  have d: "distinct (map col_name (tbl_columns t))"
    by (simp add: assms distinct_medicines_columns)
  have "''id'' \<notin> fst ` set (zip insert_columns (insert_parameters medicine))"
    using id_not_insert_column by (auto dest: set_zip_leftD)
  then have none: "map_of (zip insert_columns (insert_parameters medicine)) ''id'' = None"
    by (simp add: map_of_eq_None_iff)
  from new_row_lookup [OF d mem, of insert_columns "insert_parameters medicine"] none
  show ?thesis by simp
qed

lemma new_row_field:
  assumes "tbl_columns t = medicines_columns" and "field \<in> set insert_columns"
  shows "map_of (new_row t insert_columns (insert_parameters medicine)) field
           = Some (bind_parameter (medicine_get medicine field))"
proof -
  from assms(2) have "field \<in> set (map col_name medicines_columns)"
    by (simp add: insert_columns_are_columns)
  then obtain c where c: "c \<in> set (tbl_columns t)" "col_name c = field"
    by (auto simp: assms(1))
  have d: "distinct (map col_name (tbl_columns t))"
    by (simp add: assms distinct_medicines_columns)
  from new_row_lookup [OF d c(1), of insert_columns "insert_parameters medicine"]
    parameter_of_column [OF assms(2), of medicine] c(2)
  show ?thesis by simp
qed

lemma notnull_columns:
  "filter col_notnull medicines_columns =
     [\<lparr>col_name = ''id'', col_notnull = True, col_autoincrement = True\<rparr>,
      \<lparr>col_name = ''productnaam'', col_notnull = True, col_autoincrement = False\<rparr>]"
  unfolding medicines_columns_def by simp

lemma violates_notnull_filter:
  "violates_notnull t row
     = list_ex (\<lambda>c. map_of row (col_name c) = Some SqlNull) (filter col_notnull (tbl_columns t))"
  by (auto simp: violates_notnull_def list_ex_iff)

lemma violates_notnull_iff:
  assumes "tbl_columns t = medicines_columns"
  shows "violates_notnull t (new_row t insert_columns (insert_parameters medicine))
           \<longleftrightarrow> dict_get medicine ''productnaam'' = Some None"
proof -
  let ?row = "new_row t insert_columns (insert_parameters medicine)"
  have pn: "''productnaam'' \<in> set insert_columns" by (simp add: insert_columns_def)
  have rowpn: "map_of ?row ''productnaam'' = Some (bind_parameter (medicine_get medicine ''productnaam''))"
    using assms pn by (rule new_row_field)
  have rowid: "map_of ?row ''id'' = Some (SqlInteger (tbl_sequence t + 1))"
    using assms by (rule new_row_id)
  have null_iff: "bind_parameter (medicine_get medicine ''productnaam'') = SqlNull
                    \<longleftrightarrow> dict_get medicine ''productnaam'' = Some None"
    by (auto simp: bind_parameter_def medicine_get_def split: option.splits)
  show ?thesis
    unfolding violates_notnull_filter assms notnull_columns
    using rowpn rowid null_iff by simp
qed

lemma insert_into_medicines:
  assumes "find_table s ''medicines'' = Some t"
      and "tbl_columns t = medicines_columns"
  shows "insert_into s ''medicines'' insert_columns (insert_parameters medicine) =
           (if dict_get medicine ''productnaam'' = Some None then Inl IntegrityError
            else Inr (s\<lparr>tables := map (append_row ''medicines''
                                    (new_row t insert_columns (insert_parameters medicine)))
                                  (tables s)\<rparr>))"
proof -
  have known: "list_all (\<lambda>c. c \<in> set (map col_name (tbl_columns t))) insert_columns"
    unfolding assms(2) by (rule all_insert_columns_known)
  have len: "length insert_columns = length (insert_parameters medicine)"
    by (simp only: length_insert_columns length_insert_parameters)
  show ?thesis
    unfolding insert_into_def
    by (simp only: assms(1) option.case known len violates_notnull_iff [OF assms(2)]
          not_True_eq_False simp_thms if_False)
qed

lemma cursor_execute_insert:
  assumes "find_table (live conn) ''medicines'' = Some t"
      and "tbl_columns t = medicines_columns"
  shows "cursor_execute conn (insert_medicine medicine) =
           (if dict_get medicine ''productnaam'' = Some None
            then Inl (IntegrityError, conn\<lparr>in_transaction := True\<rparr>)
            else Inr (conn\<lparr>live := (live conn)\<lparr>tables :=
                            map (append_row ''medicines''
                                  (new_row t insert_columns (insert_parameters medicine)))
                                (tables (live conn))\<rparr>,
                          in_transaction := True,
                          uncommitted := uncommitted conn + 1\<rparr>))"
  unfolding cursor_execute_def insert_medicine_def
  by (simp add: insert_into_medicines [OF assms])

lemma find_table_after_insert:
  assumes "find_table s ''medicines'' = Some t"
  shows "find_table (s\<lparr>tables := map (append_row ''medicines'' row) (tables s)\<rparr>) ''medicines''
           = Some (t\<lparr>tbl_rows := tbl_rows t @ [row], tbl_sequence := tbl_sequence t + 1\<rparr>)"
  using find_append_row [of "''medicines''" "tables s" t row] assms find_table_name [OF assms]
  by (simp add: find_table_def append_row_def)

subsection \<open>Batches and commits\<close>

lemma has_schema_after_insert:
  assumes "has_schema conn" and "insertable medicine"
  shows "\<exists>conn'. cursor_execute conn (insert_medicine medicine) = Inr conn'
           \<and> has_schema conn'
           \<and> in_transaction conn'
           \<and> uncommitted conn' = uncommitted conn + 1
           \<and> commit_log conn' = commit_log conn
           \<and> durable conn' = durable conn"
proof -
  from assms(1) obtain t where t: "find_table (live conn) ''medicines'' = Some t"
      "tbl_columns t = medicines_columns"
    by (auto simp: has_schema_def split: option.splits)
  let ?row = "new_row t insert_columns (insert_parameters medicine)"
  let ?conn' = "conn\<lparr>live := (live conn)\<lparr>tables :=
                   map (append_row ''medicines'' ?row) (tables (live conn))\<rparr>,
                 in_transaction := True, uncommitted := uncommitted conn + 1\<rparr>"
  have run: "cursor_execute conn (insert_medicine medicine) = Inr ?conn'"
    using cursor_execute_insert [OF t, of medicine] assms(2) by (simp add: insertable_def)
  have "has_schema ?conn'"
    using find_table_after_insert [OF t(1), of ?row] t(2) by (simp add: has_schema_def)
  with run show ?thesis by simp
qed

lemma insert_batch_ok:
  assumes "has_schema conn" and "\<forall>medicine \<in> set batch. insertable medicine"
  shows "\<exists>conn'. insert_batch conn batch = Inr conn'
           \<and> has_schema conn'
           \<and> in_transaction conn' = (in_transaction conn \<or> batch \<noteq> [])
           \<and> uncommitted conn' = uncommitted conn + length batch
           \<and> commit_log conn' = commit_log conn
           \<and> durable conn' = durable conn"
  using assms
proof (induction batch arbitrary: conn)
  case Nil
  then show ?case by simp
next
  case (Cons medicine batch)
  from Cons.prems have "insertable medicine" by simp
  from has_schema_after_insert [OF Cons.prems(1) this] obtain conn1 where
    c1: "cursor_execute conn (insert_medicine medicine) = Inr conn1" "has_schema conn1"
      "in_transaction conn1" "uncommitted conn1 = uncommitted conn + 1"
      "commit_log conn1 = commit_log conn" "durable conn1 = durable conn"
    by blast
  from Cons.prems have "\<forall>medicine \<in> set batch. insertable medicine" by simp
  from Cons.IH [OF c1(2) this] obtain conn' where
    c': "insert_batch conn1 batch = Inr conn'" "has_schema conn'"
      "in_transaction conn' = (in_transaction conn1 \<or> batch \<noteq> [])"
      "uncommitted conn' = uncommitted conn1 + length batch"
      "commit_log conn' = commit_log conn1" "durable conn' = durable conn1"
    by blast
  show ?case using c1 c' by simp
qed

lemma has_schema_commit: "has_schema (commit conn) = has_schema conn"
  by (simp add: has_schema_def commit_def)

lemma batch_lengths_step:
  assumes "0 < n"
  shows "replicate (n div batch_size) batch_size
           @ (if n mod batch_size = 0 then [] else [n mod batch_size])
         = min batch_size n
           # (replicate ((n - batch_size) div batch_size) batch_size
              @ (if (n - batch_size) mod batch_size = 0 then [] else [(n - batch_size) mod batch_size]))"
proof (cases "batch_size \<le> n")
  case True
  then have d: "n div batch_size = Suc ((n - batch_size) div batch_size)"
    by (simp add: batch_size_def le_div_geq)
  have m: "n mod batch_size = (n - batch_size) mod batch_size"
    using True by (simp add: le_mod_geq)
  show ?thesis using True by (simp add: d m)
next
  case False
  then show ?thesis using assms by simp
qed

lemma insert_batches_ok:
  assumes "has_schema conn" and "\<not> in_transaction conn" and "uncommitted conn = 0"
      and "\<forall>medicine \<in> set medicines. insertable medicine"
  shows "\<exists>conn'. insert_batches conn medicines i total_inserted
                    = Inr (conn', total_inserted + (length medicines - i))
           \<and> commit_log conn' = commit_log conn
                @ replicate ((length medicines - i) div batch_size) batch_size
                @ (if (length medicines - i) mod batch_size = 0 then []
                   else [(length medicines - i) mod batch_size])
           \<and> has_schema conn' \<and> \<not> in_transaction conn' \<and> uncommitted conn' = 0"
  using assms
proof (induction conn medicines i total_inserted rule: insert_batches.induct)
  case (1 conn medicines i total_inserted)
  show ?case
  proof (cases "i < length medicines")
    case False
    then show ?thesis using "1.prems" by (simp add: insert_batches.simps [of conn medicines i])
  next
    case True
    let ?batch = "take batch_size (drop i medicines)"
    let ?n = "length medicines - i"
    have len: "length ?batch = min batch_size ?n" by simp
    have ne: "?batch \<noteq> []" using True by (simp add: batch_size_def)
    have "\<forall>medicine \<in> set ?batch. insertable medicine"
      using "1.prems"(4) by (meson in_set_dropD in_set_takeD)
    from insert_batch_ok [OF "1.prems"(1) this] obtain conn1 where
      c1: "insert_batch conn ?batch = Inr conn1" "has_schema conn1"
        "in_transaction conn1 = (in_transaction conn \<or> ?batch \<noteq> [])"
        "uncommitted conn1 = uncommitted conn + length ?batch"
        "commit_log conn1 = commit_log conn"
      by blast
    have it: "in_transaction conn1" using c1(3) ne by simp
    let ?c2 = "commit conn1"
    have c2: "has_schema ?c2" "\<not> in_transaction ?c2" "uncommitted ?c2 = 0"
        "commit_log ?c2 = commit_log conn @ [min batch_size ?n]"
      using c1 it "1.prems"(3) len by (simp_all add: has_schema_commit) (simp_all add: commit_def)
    from "1.IH" [OF True refl c1(1) c2(1,2,3) "1.prems"(4)] obtain conn' where
      c': "insert_batches ?c2 medicines (i + batch_size) (total_inserted + length ?batch)
             = Inr (conn', total_inserted + length ?batch + (length medicines - (i + batch_size)))"
        "commit_log conn' = commit_log ?c2
           @ replicate ((length medicines - (i + batch_size)) div batch_size) batch_size
           @ (if (length medicines - (i + batch_size)) mod batch_size = 0 then []
              else [(length medicines - (i + batch_size)) mod batch_size])"
        "has_schema conn'" "\<not> in_transaction conn'" "uncommitted conn' = 0"
      by blast
    have sub: "length medicines - (i + batch_size) = ?n - batch_size" by simp
    have total: "total_inserted + length ?batch + (length medicines - (i + batch_size))
                   = total_inserted + ?n"
      using True by (simp add: len min_def)
    have run: "insert_batches conn medicines i total_inserted = Inr (conn', total_inserted + ?n)"
      using True c1(1) c'(1) total
      by (simp add: insert_batches.simps [of conn medicines i] Let_def)
    have log: "commit_log conn' = commit_log conn
                @ replicate (?n div batch_size) batch_size
                @ (if ?n mod batch_size = 0 then [] else [?n mod batch_size])"
      using c'(2) c2(4) batch_lengths_step [of ?n] True unfolding sub by simp
    from run log c'(3,4,5) show ?thesis by blast
  qed
qed

lemma ceil_div:
  fixes n b :: nat
  assumes "0 < b"
  shows "(n + (b - 1)) div b = n div b + (if n mod b = 0 then 0 else 1)"
proof -
  define q where "q = n div b"
  define r where "r = n mod b"
  define p where "p = b * q"
  have n: "n = p + r" by (simp add: p_def q_def r_def)
  have r: "r < b" using assms by (simp add: r_def)
  have s1: "b * Suc q = p + b" by (simp add: p_def)
  have s2: "b * Suc (Suc q) = p + b + b" by (simp add: p_def)
  show ?thesis
  proof (cases "r = 0")
    case True
    have "b * q \<le> n + (b - 1)" using n by (simp add: p_def)
    moreover have "n + (b - 1) < b * Suc q" unfolding s1 using n True assms by linarith
    ultimately have "(n + (b - 1)) div b = q" by (rule div_nat_eqI)
    then show ?thesis using True by (simp add: q_def r_def)
  next
    case False
    have "b * Suc q \<le> n + (b - 1)" unfolding s1 using n False assms by linarith
    moreover have "n + (b - 1) < b * Suc (Suc q)" unfolding s2 using n r assms by linarith
    ultimately have "(n + (b - 1)) div b = Suc q" by (rule div_nat_eqI)
    then show ?thesis using False by (simp add: q_def r_def)
  qed
qed

subsection \<open>Schema creation\<close>

lemma schema_changed_counters:
  "in_transaction (schema_changed conn s) = in_transaction conn
   \<and> uncommitted (schema_changed conn s) = uncommitted conn
   \<and> commit_log (schema_changed conn s) = commit_log conn"
  by (simp add: schema_changed_def)

lemma create_statement_counters:
  assumes "cursor_execute conn stmt = Inr conn'" and "stmt \<in> set create_statements"
  shows "in_transaction conn' = in_transaction conn
         \<and> uncommitted conn' = uncommitted conn
         \<and> commit_log conn' = commit_log conn"
  using assms schema_changed_counters
  by (auto simp: create_statements_def cursor_execute_def split: sum.splits)

lemma execute_each_counters:
  assumes "execute_each conn stmts = Inr conn'" and "set stmts \<subseteq> set create_statements"
  shows "in_transaction conn' = in_transaction conn
         \<and> uncommitted conn' = uncommitted conn
         \<and> commit_log conn' = commit_log conn"
  using assms
proof (induction stmts arbitrary: conn)
  case Nil
  then show ?case by simp
next
  case (Cons stmt stmts)
  from Cons.prems(1) obtain conn1 where
    c1: "cursor_execute conn stmt = Inr conn1" "execute_each conn1 stmts = Inr conn'"
    by (auto split: sum.splits)
  from Cons.prems(2) have "stmt \<in> set create_statements" "set stmts \<subseteq> set create_statements"
    by simp_all
  with create_statement_counters [OF c1(1)] Cons.IH [OF c1(2)] show ?case by simp
qed

lemma create_database_counters:
  assumes "create_database fs db_path = Inr (conn, fs')"
  shows "\<not> in_transaction conn \<and> uncommitted conn = 0 \<and> commit_log conn = []"
proof -
  from assms obtain conn0 conn1 where
    c0: "connect fs db_path = Inr conn0"
    and c1: "execute_each conn0 create_statements = Inr conn1"
    and c: "conn = commit conn1"
    by (auto simp: create_database_def split: sum.splits prod.splits)
  from c0 have "\<not> in_transaction conn0 \<and> uncommitted conn0 = 0 \<and> commit_log conn0 = []"
    by (auto simp: connect_def open_connection_def split: option.splits file_content.splits)
  with execute_each_counters [OF c1] have "\<not> in_transaction conn1 \<and> uncommitted conn1 = 0 \<and> commit_log conn1 = []"
    by simp
  then show ?thesis by (simp add: c commit_def)
qed

lemma index_columns_declared:
  "''productnaam'' \<in> set (map col_name medicines_columns)
   \<and> ''werkzamestoffen'' \<in> set (map col_name medicines_columns)
   \<and> ''farmaceutischevorm'' \<in> set (map col_name medicines_columns)"
  by (simp add: insert_columns_are_columns insert_columns_def)

lemma execute_create_statements_fresh:
  "execute_each (open_connection empty_store) create_statements
     = Inr (open_connection created_store)"
  using index_columns_declared
  by (simp add: create_statements_def cursor_execute_def create_table_if_not_exists_def
        create_index_if_not_exists_def find_table_def schema_changed_def open_connection_def
        empty_store_def created_store_def)

lemma create_database_fresh:
  assumes "fs db_path = None"
  shows "create_database fs db_path
           = Inr (open_connection created_store, fs(db_path \<mapsto> Database created_store))"
  using assms execute_create_statements_fresh
  by (simp add: create_database_def connect_def commit_def write_back_def open_connection_def)

lemma create_table_open:
  assumes "cursor_execute (open_connection s) (CreateTableIfNotExists name cols) = Inr conn"
  shows "\<exists>s'. conn = open_connection s'
           \<and> name \<in> set (map tbl_name (tables s'))
           \<and> indexes s' = indexes s
           \<and> set (map tbl_name (tables s)) \<subseteq> set (map tbl_name (tables s'))
           \<and> (wf_store s \<longrightarrow> wf_store s')"
  using assms
  by (auto simp: cursor_execute_def create_table_if_not_exists_def schema_changed_def
        open_connection_def wf_store_def split: if_splits)

lemma create_index_open:
  assumes "cursor_execute (open_connection s) (CreateIndexIfNotExists name tname cname) = Inr conn"
  shows "\<exists>s'. conn = open_connection s'
           \<and> tables s' = tables s
           \<and> name \<in> set (map idx_name (indexes s'))
           \<and> name \<notin> set (map tbl_name (tables s))
           \<and> find_table s tname \<noteq> None
           \<and> set (map idx_name (indexes s)) \<subseteq> set (map idx_name (indexes s'))
           \<and> (wf_store s \<longrightarrow> wf_store s')"
  using assms
  by (auto simp: cursor_execute_def create_index_if_not_exists_def schema_changed_def
        open_connection_def wf_store_def split: if_splits option.splits)

lemma create_table_again:
  assumes "name \<in> set (map tbl_name (tables s))"
  shows "cursor_execute (open_connection s) (CreateTableIfNotExists name cols)
           = Inr (open_connection s)"
  using assms
  by (simp add: cursor_execute_def create_table_if_not_exists_def schema_changed_def
        open_connection_def)

lemma create_index_again:
  assumes "name \<in> set (map idx_name (indexes s))"
      and "name \<notin> set (map tbl_name (tables s))"
      and "find_table s tname \<noteq> None"
  shows "cursor_execute (open_connection s) (CreateIndexIfNotExists name tname cname)
           = Inr (open_connection s)"
  using assms
  by (auto simp: cursor_execute_def create_index_if_not_exists_def schema_changed_def
        open_connection_def split: option.splits)

lemma find_table_tables: "tables s' = tables s \<Longrightarrow> find_table s' name = find_table s name"
  by (simp add: find_table_def)

lemma execute_create_statements:
  assumes "execute_each (open_connection s) create_statements = Inr conn"
  shows "\<exists>s'. conn = open_connection s'
           \<and> execute_each (open_connection s') create_statements = Inr (open_connection s')
           \<and> ''medicines'' \<in> set (map tbl_name (tables s'))
           \<and> ''idx_productnaam'' \<in> set (map idx_name (indexes s'))
           \<and> ''idx_werkzamestoffen'' \<in> set (map idx_name (indexes s'))
           \<and> ''idx_farmaceutischevorm'' \<in> set (map idx_name (indexes s'))
           \<and> (wf_store s \<longrightarrow> wf_store s')"
proof -
  from assms obtain c1 c2 c3 where
    e1: "cursor_execute (open_connection s) (CreateTableIfNotExists ''medicines'' medicines_columns)
           = Inr c1"
    and e2: "cursor_execute c1 (CreateIndexIfNotExists ''idx_productnaam'' ''medicines''
               ''productnaam'') = Inr c2"
    and e3: "cursor_execute c2 (CreateIndexIfNotExists ''idx_werkzamestoffen'' ''medicines''
               ''werkzamestoffen'') = Inr c3"
    and e4: "cursor_execute c3 (CreateIndexIfNotExists ''idx_farmaceutischevorm'' ''medicines''
               ''farmaceutischevorm'') = Inr conn"
    by (auto simp: create_statements_def split: sum.splits)
  from create_table_open [OF e1] obtain s1 where
    s1: "c1 = open_connection s1" "''medicines'' \<in> set (map tbl_name (tables s1))"
      "wf_store s \<longrightarrow> wf_store s1"
    by blast
  from create_index_open [OF e2 [unfolded s1(1)]] obtain s2 where
    s2: "c2 = open_connection s2" "tables s2 = tables s1"
      "''idx_productnaam'' \<in> set (map idx_name (indexes s2))"
      "''idx_productnaam'' \<notin> set (map tbl_name (tables s1))"
      "find_table s1 ''medicines'' \<noteq> None"
      "wf_store s1 \<longrightarrow> wf_store s2"
    by blast
  from create_index_open [OF e3 [unfolded s2(1)]] obtain s3 where
    s3: "c3 = open_connection s3" "tables s3 = tables s2"
      "''idx_werkzamestoffen'' \<in> set (map idx_name (indexes s3))"
      "''idx_werkzamestoffen'' \<notin> set (map tbl_name (tables s2))"
      "set (map idx_name (indexes s2)) \<subseteq> set (map idx_name (indexes s3))"
      "wf_store s2 \<longrightarrow> wf_store s3"
    by blast
  from create_index_open [OF e4 [unfolded s3(1)]] obtain s4 where
    s4: "conn = open_connection s4" "tables s4 = tables s3"
      "''idx_farmaceutischevorm'' \<in> set (map idx_name (indexes s4))"
      "''idx_farmaceutischevorm'' \<notin> set (map tbl_name (tables s3))"
      "set (map idx_name (indexes s3)) \<subseteq> set (map idx_name (indexes s4))"
      "wf_store s3 \<longrightarrow> wf_store s4"
    by blast
  have tabs: "tables s4 = tables s1" using s2(2) s3(2) s4(2) by simp
  have t: "''medicines'' \<in> set (map tbl_name (tables s4))" using s1(2) tabs by simp
  have i1: "''idx_productnaam'' \<in> set (map idx_name (indexes s4))"
    using s2(3) s3(5) s4(5) by blast
  have i2: "''idx_werkzamestoffen'' \<in> set (map idx_name (indexes s4))"
    using s3(3) s4(5) by blast
  have found: "find_table s4 ''medicines'' \<noteq> None"
    using s2(5) find_table_tables [OF tabs] by simp
  have n1: "''idx_productnaam'' \<notin> set (map tbl_name (tables s4))" using s2(4) tabs by simp
  have n2: "''idx_werkzamestoffen'' \<notin> set (map tbl_name (tables s4))"
    using s3(4) s2(2) tabs by simp
  have n3: "''idx_farmaceutischevorm'' \<notin> set (map tbl_name (tables s4))"
    using s4(4) s3(2) s2(2) tabs by simp
  have again: "execute_each (open_connection s4) create_statements = Inr (open_connection s4)"
    by (simp add: create_statements_def create_table_again [OF t]
          create_index_again [OF i1 n1 found] create_index_again [OF i2 n2 found]
          create_index_again [OF s4(3) n3 found])
  have wf: "wf_store s \<longrightarrow> wf_store s4" using s1(3) s2(6) s3(6) s4(6) by blast
  from s4(1) again t i1 i2 s4(3) wf show ?thesis by blast
qed

lemma commit_open_connection: "commit (open_connection s) = open_connection s"
  by (simp add: commit_def open_connection_def)

lemma count_one: "distinct (map f xs) \<Longrightarrow> k \<in> set (map f xs) \<Longrightarrow> length (filter (\<lambda>x. f x = k) xs) = 1"
proof (induction xs)
  case Nil
  then show ?case by simp
next
  case (Cons x xs)
  show ?case
  proof (cases "f x = k")
    case True
    from Cons.prems(1) have "f x \<notin> f ` set xs" by simp
    then have "\<forall>y \<in> set xs. f y \<noteq> f x" by (metis imageI)
    then have "filter (\<lambda>x. f x = k) xs = []"
      unfolding True by (simp add: filter_empty_conv)
    with True show ?thesis by simp
  next
    case False
    with Cons show ?thesis by auto
  qed
qed

lemma connect_Inr:
  assumes "connect fs db_path = Inr conn"
  shows "\<exists>s. conn = open_connection s
           \<and> (fs db_path = None \<and> s = empty_store \<or> fs db_path = Some (Database s))"
  using assms by (auto simp: connect_def split: option.splits file_content.splits)

subsection \<open>Header names with whitespace\<close>

lemma isspace_not_upper: "isspace c \<Longrightarrow> \<not> isupper c"
  unfolding isspace_def isupper_def Let_def by auto

lemma lower_whitespace: "\<forall>c \<in> set a. isspace c \<Longrightarrow> lower a = a"
  by (induction a) (auto simp: lower_def lower_char_def isspace_not_upper)

lemma lower_append: "lower (a @ b) = lower a @ lower b"
  by (simp add: lower_def)

lemma insert_columns_unpadded:
  "list_all (\<lambda>f. f \<noteq> [] \<and> \<not> isspace (hd f) \<and> \<not> isspace (last f)) insert_columns"
  unfolding insert_columns_def by (simp add: isspace_def)

subsection \<open>Claims about the Loader\<close>

text \<open>
  Claim C1, as amended. The claim says that the row holds the Record's values with absent
  fields mapped to the empty string. That holds for a field whose key is missing from the
  Record, and not for a field whose value is \<^verbatim>\<open>None\<close>, which is how the Normalizer
  hands over an absent value: \<^verbatim>\<open>medicine.get(key, '')\<close> returns the \<^verbatim>\<open>None\<close> and the
  column holds \<^verbatim>\<open>NULL\<close> (the counterexample follows the witness). What the code does:
  on a store whose \<^verbatim>\<open>medicines\<close> table has the declared columns, an insert that
  succeeds adds one row, whose columns are the declared ones in their order. Each of the
  27 columns other than the key \<^verbatim>\<open>id\<close> holds what the Record holds under the column's
  own name, never under another: the text for a text, \<^verbatim>\<open>NULL\<close> for \<^verbatim>\<open>None\<close>, and
  the empty string when the Record has no such key.
\<close>

theorem loader_row_alignment:
  assumes "find_table (live conn) ''medicines'' = Some t"
      and "tbl_columns t = medicines_columns"
      and "cursor_execute conn (insert_medicine medicine) = Inr conn'"
  shows "\<exists>row. find_table (live conn') ''medicines''
                  = Some (t\<lparr>tbl_rows := tbl_rows t @ [row], tbl_sequence := tbl_sequence t + 1\<rparr>)
           \<and> map fst row = map col_name medicines_columns
           \<and> length (filter (\<lambda>c. col_name c \<noteq> ''id'') medicines_columns) = 27
           \<and> (\<forall>c \<in> set medicines_columns. col_name c \<noteq> ''id'' \<longrightarrow>
                 map_of row (col_name c)
                   = Some (case dict_get medicine (col_name c) of
                             None \<Rightarrow> SqlText []
                           | Some None \<Rightarrow> SqlNull
                           | Some (Some s) \<Rightarrow> SqlText s))"
proof -
  let ?row = "new_row t insert_columns (insert_parameters medicine)"
  from assms(3) cursor_execute_insert [OF assms(1,2), of medicine]
  have live': "live conn' = (live conn)\<lparr>tables := map (append_row ''medicines'' ?row) (tables (live conn))\<rparr>"
    by (auto split: if_splits)
  have found: "find_table (live conn') ''medicines''
                 = Some (t\<lparr>tbl_rows := tbl_rows t @ [?row], tbl_sequence := tbl_sequence t + 1\<rparr>)"
    unfolding live' using assms(1) by (rule find_table_after_insert)
  have names: "map fst ?row = map col_name medicines_columns"
    using assms(2) by (rule new_row_names)
  have count: "length (filter (\<lambda>c. col_name c \<noteq> ''id'') medicines_columns) = 27"
    by (simp add: medicines_columns_def)
  have vals: "map_of ?row (col_name c)
                = Some (case dict_get medicine (col_name c) of
                          None \<Rightarrow> SqlText [] | Some None \<Rightarrow> SqlNull | Some (Some s) \<Rightarrow> SqlText s)"
    if "c \<in> set medicines_columns" "col_name c \<noteq> ''id''" for c
  proof -
    from that(1) have "col_name c \<in> set (map col_name medicines_columns)" by simp
    with that(2) have "col_name c \<in> set insert_columns"
      by (simp add: insert_columns_are_columns)
    from new_row_field [OF assms(2) this] show ?thesis
      by (simp add: bind_parameter_def medicine_get_def split: option.splits)
  qed
  from found names count vals show ?thesis by blast
qed

theorem loader_row_alignment_witness:
  "\<exists>conn' row.
      cursor_execute
        (open_connection \<lparr>tables = [\<lparr>tbl_name = ''medicines'', tbl_columns = medicines_columns,
                                      tbl_rows = [], tbl_sequence = 0\<rparr>], indexes = []\<rparr>)
        (insert_medicine [(''soort'', None), (''productnaam'', Some ''Aspirin 500mg'')]) = Inr conn'
    \<and> find_table (live conn') ''medicines''
        = Some \<lparr>tbl_name = ''medicines'', tbl_columns = medicines_columns, tbl_rows = [row],
                tbl_sequence = 1\<rparr>
    \<and> map_of row ''productnaam'' = Some (SqlText ''Aspirin 500mg'')
    \<and> map_of row ''soort'' = Some SqlNull
    \<and> map_of row ''atc'' = Some (SqlText [])"
proof -
  let ?t = "\<lparr>tbl_name = ''medicines'', tbl_columns = medicines_columns, tbl_rows = [],
             tbl_sequence = 0\<rparr>"
  let ?conn = "open_connection \<lparr>tables = [?t], indexes = []\<rparr>"
  let ?m = "[(''soort'', None), (''productnaam'', Some ''Aspirin 500mg'')]"
  have f: "find_table (live ?conn) ''medicines'' = Some ?t"
    by (simp add: find_table_def open_connection_def)
  have c: "tbl_columns ?t = medicines_columns" by simp
  have "dict_get ?m ''productnaam'' \<noteq> Some None" by (simp add: dict_get_def)
  with cursor_execute_insert [OF f c, of ?m] obtain conn' where
    run: "cursor_execute ?conn (insert_medicine ?m) = Inr conn'" by simp
  from loader_row_alignment [OF f c run] obtain row where
    found: "find_table (live conn') ''medicines''
              = Some (?t\<lparr>tbl_rows := tbl_rows ?t @ [row], tbl_sequence := tbl_sequence ?t + 1\<rparr>)"
    and vals: "\<forall>c \<in> set medicines_columns. col_name c \<noteq> ''id'' \<longrightarrow>
                 map_of row (col_name c)
                   = Some (case dict_get ?m (col_name c) of
                             None \<Rightarrow> SqlText []
                           | Some None \<Rightarrow> SqlNull
                           | Some (Some s) \<Rightarrow> SqlText s)"
    by blast
  have m1: "\<lparr>col_name = ''productnaam'', col_notnull = True, col_autoincrement = False\<rparr>
              \<in> set medicines_columns"
    and m2: "\<lparr>col_name = ''soort'', col_notnull = False, col_autoincrement = False\<rparr>
              \<in> set medicines_columns"
    and m3: "\<lparr>col_name = ''atc'', col_notnull = False, col_autoincrement = False\<rparr>
              \<in> set medicines_columns"
    by (simp_all add: medicines_columns_def)
  have "map_of row ''productnaam'' = Some (SqlText ''Aspirin 500mg'')"
    using bspec [OF vals m1] by (simp add: dict_get_def)
  moreover have "map_of row ''soort'' = Some SqlNull"
    using bspec [OF vals m2] by (simp add: dict_get_def)
  moreover have "map_of row ''atc'' = Some (SqlText [])"
    using bspec [OF vals m3] by (simp add: dict_get_def)
  ultimately show ?thesis using run found by auto
qed

text \<open>
  Claim C1, the counterexample to the claim as it is written. The table with the header
  \<^verbatim>\<open>ProductNaam|Soort\<close> and the one row \<^verbatim>\<open>Aspirin 500mg\<close> gives the Record in
  which \<^verbatim>\<open>soort\<close> is absent, that is \<^verbatim>\<open>None\<close>. Its insert succeeds, and the row it
  adds holds \<^verbatim>\<open>NULL\<close> in the column \<^verbatim>\<open>soort\<close>, not the empty string.
\<close>

theorem loader_row_alignment_counterexample:
  "read_records [[''ProductNaam'', ''Soort''], [''Aspirin 500mg'']]
     = Inr [[(''productnaam'', Some ''Aspirin 500mg''), (''soort'', None)]]
   \<and> cursor_execute
        (open_connection \<lparr>tables = [\<lparr>tbl_name = ''medicines'', tbl_columns = medicines_columns,
                                      tbl_rows = [], tbl_sequence = 0\<rparr>], indexes = []\<rparr>)
        (insert_medicine [(''productnaam'', Some ''Aspirin 500mg''), (''soort'', None)])
       = Inr \<lparr>live = \<lparr>tables =
                  [\<lparr>tbl_name = ''medicines'', tbl_columns = medicines_columns,
                    tbl_rows =
                      [new_row \<lparr>tbl_name = ''medicines'', tbl_columns = medicines_columns,
                                tbl_rows = [], tbl_sequence = 0\<rparr>
                         insert_columns
                         (insert_parameters
                            [(''productnaam'', Some ''Aspirin 500mg''), (''soort'', None)])],
                    tbl_sequence = 1\<rparr>],
                 indexes = []\<rparr>,
              durable = \<lparr>tables = [\<lparr>tbl_name = ''medicines'', tbl_columns = medicines_columns,
                                      tbl_rows = [], tbl_sequence = 0\<rparr>], indexes = []\<rparr>,
              in_transaction = True, uncommitted = 1, commit_log = []\<rparr>
   \<and> map_of (new_row \<lparr>tbl_name = ''medicines'', tbl_columns = medicines_columns,
                       tbl_rows = [], tbl_sequence = 0\<rparr>
                insert_columns
                (insert_parameters [(''productnaam'', Some ''Aspirin 500mg''), (''soort'', None)]))
        ''soort'' = Some SqlNull
   \<and> SqlNull \<noteq> SqlText []"
proof -
  let ?t = "\<lparr>tbl_name = ''medicines'', tbl_columns = medicines_columns, tbl_rows = [],
             tbl_sequence = 0\<rparr>"
  let ?conn = "open_connection \<lparr>tables = [?t], indexes = []\<rparr>"
  let ?m = "[(''productnaam'', Some ''Aspirin 500mg''), (''soort'', None)]"
  have run: "read_records [[''ProductNaam'', ''Soort''], [''Aspirin 500mg'']] = Inr [?m]"
    by code_simp
  have f: "find_table (live ?conn) ''medicines'' = Some ?t"
    by (simp add: find_table_def open_connection_def)
  have c: "tbl_columns ?t = medicines_columns" by simp
  have pn: "dict_get ?m ''productnaam'' \<noteq> Some None" by (simp add: dict_get_def)
  have exec: "cursor_execute ?conn (insert_medicine ?m)
                = Inr (?conn\<lparr>live := (live ?conn)\<lparr>tables :=
                        map (append_row ''medicines'' (new_row ?t insert_columns (insert_parameters ?m)))
                            (tables (live ?conn))\<rparr>,
                      in_transaction := True, uncommitted := uncommitted ?conn + 1\<rparr>)"
    using cursor_execute_insert [OF f c, of ?m] pn by simp
  have s: "''soort'' \<in> set insert_columns" by (simp add: insert_columns_def)
  have null: "map_of (new_row ?t insert_columns (insert_parameters ?m)) ''soort'' = Some SqlNull"
    using new_row_field [OF c s, of ?m]
    by (simp add: bind_parameter_def medicine_get_def dict_get_def)
  from run exec null show ?thesis
    by (simp add: open_connection_def append_row_def)
qed

text \<open>
  Claim C2. Take the connection \<open>create_database\<close> returns, with the declared table, and
  Records whose product name is not \<^verbatim>\<open>None\<close> (so that no insert raises). The connection
  has committed no transaction when the loop starts: the \<^verbatim>\<open>commit()\<close> of
  \<open>create_database\<close> finds none open. The loop inserts all \<open>N\<close> Records and commits once
  per batch of 1000: \<open>N div 1000\<close> transactions of 1000 rows and one more of \<open>N mod 1000\<close>
  rows when that is not zero, which is \<open>\<lceil>N / 1000\<rceil>\<close> commits, and for 2500 Records the
  three commits of 1000, 1000 and 500 rows.
\<close>

theorem loader_commits_once_per_batch:
  assumes "create_database fs db_path = Inr (conn, fs')"
      and "find_table (live conn) ''medicines'' = Some t"
      and "tbl_columns t = medicines_columns"
      and "\<forall>medicine \<in> set medicines. dict_get medicine ''productnaam'' \<noteq> Some None"
  shows "commit_log conn = []
         \<and> (\<exists>conn'. insert_batches conn medicines 0 0 = Inr (conn', length medicines)
               \<and> commit_log conn'
                   = replicate (length medicines div batch_size) batch_size
                     @ (if length medicines mod batch_size = 0 then []
                        else [length medicines mod batch_size])
               \<and> length (commit_log conn') = (length medicines + (batch_size - 1)) div batch_size
               \<and> batch_size = 1000
               \<and> (length medicines = 2500 \<longrightarrow> commit_log conn' = [1000, 1000, 500]))"
proof -
  let ?n = "length medicines"
  from create_database_counters [OF assms(1)]
  have fresh: "\<not> in_transaction conn" "uncommitted conn = 0" "commit_log conn = []"
    by simp_all
  have schema: "has_schema conn" using assms(2,3) by (simp add: has_schema_def)
  have ins: "\<forall>medicine \<in> set medicines. insertable medicine"
    using assms(4) by (simp add: insertable_def)
  from insert_batches_ok [OF schema fresh(1,2) ins, of 0 0] fresh(3) obtain conn' where
    run: "insert_batches conn medicines 0 0 = Inr (conn', ?n)"
    and log: "commit_log conn' = replicate (?n div batch_size) batch_size
                @ (if ?n mod batch_size = 0 then [] else [?n mod batch_size])"
    by auto
  have count: "length (commit_log conn') = (?n + (batch_size - 1)) div batch_size"
    unfolding log using ceil_div [of batch_size ?n] by (simp add: batch_size_def)
  have r: "replicate 2 (1000::nat) = [1000, 1000]" by (simp add: numeral_2_eq_2)
  have special: "commit_log conn' = [1000, 1000, 500]" if "?n = 2500"
    unfolding log that batch_size_def by (simp add: r)
  have b: "batch_size = 1000" by (rule batch_size_def)
  from fresh(3) run log count special b show ?thesis by blast
qed

theorem loader_commits_once_per_batch_witness:
  "\<exists>conn fs' conn'.
      create_database (\<lambda>path. None) ''data/medicines.db'' = Inr (conn, fs')
    \<and> commit_log conn = []
    \<and> insert_batches conn (replicate 2500 [(''productnaam'', Some ''Aspirin 500mg'')]) 0 0
        = Inr (conn', 2500)
    \<and> commit_log conn' = [1000, 1000, 500]
    \<and> length (commit_log conn') = (2500 + (batch_size - 1)) div batch_size"
proof -
  let ?fs = "\<lambda>path. None :: file_content option"
  let ?p = "''data/medicines.db''"
  let ?conn = "open_connection created_store"
  let ?t = "\<lparr>tbl_name = ''medicines'', tbl_columns = medicines_columns, tbl_rows = [],
             tbl_sequence = 0\<rparr>"
  let ?ms = "replicate 2500 [(''productnaam'', Some ''Aspirin 500mg'')]"
  have c: "create_database ?fs ?p = Inr (?conn, ?fs(?p \<mapsto> Database created_store))"
    by (rule create_database_fresh) simp
  have f: "find_table (live ?conn) ''medicines'' = Some ?t"
    by (simp add: find_table_def open_connection_def created_store_def)
  have cols: "tbl_columns ?t = medicines_columns" by simp
  have ok: "\<forall>medicine \<in> set ?ms. dict_get medicine ''productnaam'' \<noteq> Some None"
    by (simp add: dict_get_def)
  from loader_commits_once_per_batch [OF c f cols ok] c show ?thesis
    by auto
qed

text \<open>
  Claim C5. When nothing is at the path of the input document, the Loader ends with exit
  status 1 and every path holds what it held before: no store is created at the
  destination path and no statement has run on one.
\<close>

theorem loader_missing_input:
  assumes "fs json_path = None"
  shows "\<exists>status. migrate_json_to_sqlite fs json_path db_path = (SysExit status, fs)
           \<and> status \<noteq> 0
           \<and> snd (migrate_json_to_sqlite fs json_path db_path) db_path = fs db_path"
  using assms by (simp add: migrate_json_to_sqlite_def)

theorem loader_missing_input_witness:
  "migrate_json_to_sqlite (\<lambda>path. None) ''data/medicines.json'' ''data/medicines.db''
     = (SysExit 1, \<lambda>path. None)"
proof -
  have "(\<lambda>path. None :: file_content option) ''data/medicines.json'' = None" by simp
  from loader_missing_input [OF this, of "''data/medicines.db''"] show ?thesis
    by (auto simp: migrate_json_to_sqlite_def)
qed

text \<open>
  Claim C6. When \<open>create_database\<close> has succeeded on a destination that was absent or a
  well-formed store, calling it again on what it left raises nothing and changes nothing:
  it returns the same connection state and the same files. The store then has exactly
  one table \<^verbatim>\<open>medicines\<close> and exactly one index of each of the three names.
\<close>

theorem create_database_idempotent:
  assumes "create_database fs db_path = Inr (conn, fs')"
      and "\<forall>s. fs db_path = Some (Database s) \<longrightarrow> wf_store s"
  shows "create_database fs' db_path = Inr (conn, fs')
         \<and> fs' db_path = Some (Database (live conn))
         \<and> length (filter (\<lambda>t. tbl_name t = ''medicines'') (tables (live conn))) = 1
         \<and> length (filter (\<lambda>x. idx_name x = ''idx_productnaam'') (indexes (live conn))) = 1
         \<and> length (filter (\<lambda>x. idx_name x = ''idx_werkzamestoffen'') (indexes (live conn))) = 1
         \<and> length (filter (\<lambda>x. idx_name x = ''idx_farmaceutischevorm'') (indexes (live conn))) = 1"
proof -
  from assms(1) obtain conn0 conn1 where
    c0: "connect fs db_path = Inr conn0"
    and c1: "execute_each conn0 create_statements = Inr conn1"
    and c: "conn = commit conn1"
    and f: "fs' = write_back fs db_path (commit conn1)"
    by (auto simp: create_database_def split: sum.splits prod.splits)
  from connect_Inr [OF c0] obtain s0 where
    s0: "conn0 = open_connection s0"
      "fs db_path = None \<and> s0 = empty_store \<or> fs db_path = Some (Database s0)"
    by blast
  have wf0: "wf_store s0"
    using s0(2) assms(2) by (auto simp: wf_store_def empty_store_def)
  from execute_create_statements [OF c1 [unfolded s0(1)]] wf0 obtain s where
    s: "conn1 = open_connection s"
      "execute_each (open_connection s) create_statements = Inr (open_connection s)"
      "''medicines'' \<in> set (map tbl_name (tables s))"
      "''idx_productnaam'' \<in> set (map idx_name (indexes s))"
      "''idx_werkzamestoffen'' \<in> set (map idx_name (indexes s))"
      "''idx_farmaceutischevorm'' \<in> set (map idx_name (indexes s))"
      "wf_store s"
    by blast
  have conn: "conn = open_connection s" by (simp add: c s(1) commit_open_connection)
  have live: "live conn = s" "durable conn = s" by (simp_all add: conn open_connection_def)
  have fs': "fs' = fs(db_path \<mapsto> Database s)"
    unfolding f s(1) commit_open_connection write_back_def by (simp add: open_connection_def)
  have con': "connect fs' db_path = Inr (open_connection s)"
    by (simp add: connect_def fs')
  have wb: "write_back fs' db_path (open_connection s) = fs'"
    by (simp add: write_back_def fs' open_connection_def)
  have again: "create_database fs' db_path = Inr (conn, fs')"
    unfolding create_database_def con' conn
    by (simp add: s(2) commit_open_connection wb)
  have d: "distinct (map tbl_name (tables s))" "distinct (map idx_name (indexes s))"
    using s(7) by (simp_all add: wf_store_def)
  show ?thesis
    using again fs' count_one [OF d(1) s(3)] count_one [OF d(2) s(4)]
      count_one [OF d(2) s(5)] count_one [OF d(2) s(6)]
    by (simp add: live)
qed

theorem create_database_idempotent_witness:
  "\<exists>conn fs'.
      create_database (\<lambda>path. None) ''data/medicines.db'' = Inr (conn, fs')
    \<and> create_database fs' ''data/medicines.db'' = Inr (conn, fs')
    \<and> length (filter (\<lambda>t. tbl_name t = ''medicines'') (tables (live conn))) = 1
    \<and> length (filter (\<lambda>x. idx_name x = ''idx_productnaam'') (indexes (live conn))) = 1
    \<and> length (indexes (live conn)) = 3"
proof -
  let ?fs = "\<lambda>path. None :: file_content option"
  let ?p = "''data/medicines.db''"
  have c: "create_database ?fs ?p
             = Inr (open_connection created_store, ?fs(?p \<mapsto> Database created_store))"
    by (rule create_database_fresh) simp
  have wf: "\<forall>s. ?fs ?p = Some (Database s) \<longrightarrow> wf_store s" by simp
  have three: "length (indexes (live (open_connection created_store))) = 3"
    by (simp add: open_connection_def created_store_def)
  from create_database_idempotent [OF c wf] c three show ?thesis by blast
qed

text \<open>
  Claim C9. The empty string stands in for a key that is missing, not for a value that is
  \<^verbatim>\<open>None\<close>. For a column whose key is in the Record with the value \<^verbatim>\<open>None\<close>,
  \<^verbatim>\<open>medicine.get\<close> returns \<^verbatim>\<open>None\<close>, the parameter bound to the column is \<^verbatim>\<open>NULL\<close>,
  and so is the column of the row when the insert succeeds; for a column whose key is
  missing the parameter is the empty string. A Record whose \<^verbatim>\<open>productnaam\<close> is \<^verbatim>\<open>None\<close>
  makes the insert raise IntegrityError (the column is \<^verbatim>\<open>NOT NULL\<close>); a Record without
  the key \<^verbatim>\<open>productnaam\<close> is inserted, with the empty string in that column.
\<close>

theorem loader_null_is_not_defaulted:
  assumes "find_table (live conn) ''medicines'' = Some t"
      and "tbl_columns t = medicines_columns"
  shows "(\<forall>field \<in> set insert_columns. dict_get medicine field = Some None \<longrightarrow>
            medicine_get medicine field = None
            \<and> map_of (zip insert_columns (insert_parameters medicine)) field = Some SqlNull
            \<and> (\<forall>conn'. cursor_execute conn (insert_medicine medicine) = Inr conn' \<longrightarrow>
                  (\<exists>t' row. find_table (live conn') ''medicines'' = Some t'
                     \<and> tbl_rows t' = tbl_rows t @ [row]
                     \<and> map_of row field = Some SqlNull)))
       \<and> (\<forall>field \<in> set insert_columns. dict_get medicine field = None \<longrightarrow>
            map_of (zip insert_columns (insert_parameters medicine)) field = Some (SqlText []))
       \<and> (dict_get medicine ''productnaam'' = Some None \<longrightarrow>
            cursor_execute conn (insert_medicine medicine)
              = Inl (IntegrityError, conn\<lparr>in_transaction := True\<rparr>))
       \<and> (dict_get medicine ''productnaam'' = None \<longrightarrow>
            (\<exists>conn' t' row. cursor_execute conn (insert_medicine medicine) = Inr conn'
               \<and> find_table (live conn') ''medicines'' = Some t'
               \<and> tbl_rows t' = tbl_rows t @ [row]
               \<and> map_of row ''productnaam'' = Some (SqlText [])))"
proof -
  let ?row = "new_row t insert_columns (insert_parameters medicine)"
  let ?t' = "t\<lparr>tbl_rows := tbl_rows t @ [?row], tbl_sequence := tbl_sequence t + 1\<rparr>"
  note exec = cursor_execute_insert [OF assms, of medicine]
  have after: "find_table (live conn') ''medicines'' = Some ?t'"
    if "cursor_execute conn (insert_medicine medicine) = Inr conn'" for conn'
  proof -
    from that exec have "live conn' = (live conn)\<lparr>tables :=
        map (append_row ''medicines'' ?row) (tables (live conn))\<rparr>"
      by (auto split: if_splits)
    then show ?thesis using find_table_after_insert [OF assms(1), of ?row] by simp
  qed
  have null: "medicine_get medicine field = None
            \<and> map_of (zip insert_columns (insert_parameters medicine)) field = Some SqlNull
            \<and> (\<forall>conn'. cursor_execute conn (insert_medicine medicine) = Inr conn' \<longrightarrow>
                  (\<exists>t' row. find_table (live conn') ''medicines'' = Some t'
                     \<and> tbl_rows t' = tbl_rows t @ [row]
                     \<and> map_of row field = Some SqlNull))"
    if f: "field \<in> set insert_columns" and n: "dict_get medicine field = Some None" for field
  proof -
    have g: "medicine_get medicine field = None" using n by (simp add: medicine_get_def)
    have p: "map_of (zip insert_columns (insert_parameters medicine)) field = Some SqlNull"
      using parameter_of_column [OF f, of medicine] g by (simp add: bind_parameter_def)
    have r: "map_of ?row field = Some SqlNull"
      using new_row_field [OF assms(2) f, of medicine] g by (simp add: bind_parameter_def)
    have "\<exists>t' row. find_table (live conn') ''medicines'' = Some t'
            \<and> tbl_rows t' = tbl_rows t @ [row] \<and> map_of row field = Some SqlNull"
      if "cursor_execute conn (insert_medicine medicine) = Inr conn'" for conn'
      using after [OF that] r by (intro exI [of _ ?t'] exI [of _ ?row]) simp
    with g p show ?thesis by blast
  qed
  have missing: "map_of (zip insert_columns (insert_parameters medicine)) field = Some (SqlText [])"
    if f: "field \<in> set insert_columns" and n: "dict_get medicine field = None" for field
    using parameter_of_column [OF f, of medicine] n
    by (simp add: bind_parameter_def medicine_get_def)
  have raise: "cursor_execute conn (insert_medicine medicine)
                 = Inl (IntegrityError, conn\<lparr>in_transaction := True\<rparr>)"
    if "dict_get medicine ''productnaam'' = Some None"
    using exec that by simp
  have ok: "\<exists>conn' t' row. cursor_execute conn (insert_medicine medicine) = Inr conn'
               \<and> find_table (live conn') ''medicines'' = Some t'
               \<and> tbl_rows t' = tbl_rows t @ [row]
               \<and> map_of row ''productnaam'' = Some (SqlText [])"
    if n: "dict_get medicine ''productnaam'' = None"
  proof -
    have pn: "''productnaam'' \<in> set insert_columns" by (simp add: insert_columns_def)
    from exec n obtain conn' where run: "cursor_execute conn (insert_medicine medicine) = Inr conn'"
      by simp
    have r: "map_of ?row ''productnaam'' = Some (SqlText [])"
      using new_row_field [OF assms(2) pn, of medicine] n
      by (simp add: bind_parameter_def medicine_get_def)
    show ?thesis
      using run after [OF run] r by (intro exI [of _ conn'] exI [of _ ?t'] exI [of _ ?row]) simp
  qed
  from null missing raise ok show ?thesis by blast
qed

theorem loader_null_is_not_defaulted_witness:
  "cursor_execute
     (open_connection \<lparr>tables = [\<lparr>tbl_name = ''medicines'', tbl_columns = medicines_columns,
                                   tbl_rows = [], tbl_sequence = 0\<rparr>], indexes = []\<rparr>)
     (insert_medicine [(''productnaam'', None)])
     = Inl (IntegrityError,
            (open_connection \<lparr>tables = [\<lparr>tbl_name = ''medicines'', tbl_columns = medicines_columns,
                                   tbl_rows = [], tbl_sequence = 0\<rparr>], indexes = []\<rparr>)
              \<lparr>in_transaction := True\<rparr>)
   \<and> (\<exists>conn' t' row.
         cursor_execute
           (open_connection \<lparr>tables = [\<lparr>tbl_name = ''medicines'', tbl_columns = medicines_columns,
                                   tbl_rows = [], tbl_sequence = 0\<rparr>], indexes = []\<rparr>)
           (insert_medicine [(''soort'', None)]) = Inr conn'
         \<and> find_table (live conn') ''medicines'' = Some t'
         \<and> tbl_rows t' = [row]
         \<and> map_of row ''productnaam'' = Some (SqlText [])
         \<and> map_of row ''soort'' = Some SqlNull)"
proof -
  let ?t = "\<lparr>tbl_name = ''medicines'', tbl_columns = medicines_columns, tbl_rows = [],
             tbl_sequence = 0\<rparr>"
  let ?conn = "open_connection \<lparr>tables = [?t], indexes = []\<rparr>"
  have f: "find_table (live ?conn) ''medicines'' = Some ?t"
    by (simp add: find_table_def open_connection_def)
  have c: "tbl_columns ?t = medicines_columns" by simp
  have s: "''soort'' \<in> set insert_columns" by (simp add: insert_columns_def)
  note a = loader_null_is_not_defaulted [OF f c, of "[(''productnaam'', None)]"]
  note b = loader_null_is_not_defaulted [OF f c, of "[(''soort'', None)]"]
  have raise: "cursor_execute ?conn (insert_medicine [(''productnaam'', None)])
                 = Inl (IntegrityError, ?conn\<lparr>in_transaction := True\<rparr>)"
    using a by (simp add: dict_get_def)
  from b obtain conn' t' row where
    run: "cursor_execute ?conn (insert_medicine [(''soort'', None)]) = Inr conn'"
    and t': "find_table (live conn') ''medicines'' = Some t'" "tbl_rows t' = tbl_rows ?t @ [row]"
    and pn: "map_of row ''productnaam'' = Some (SqlText [])"
    by (auto simp: dict_get_def)
  from b s run obtain t'' row' where
    t'': "find_table (live conn') ''medicines'' = Some t''" "tbl_rows t'' = tbl_rows ?t @ [row']"
    and so: "map_of row' ''soort'' = Some SqlNull"
    by (auto simp: dict_get_def)
  from t' t'' have "row' = row" by simp
  with run t' pn so raise show ?thesis by auto
qed

subsection \<open>A claim about both scripts\<close>

text \<open>
  Claim C10. Take a header cell \<open>h\<close> with leading or trailing whitespace that stands for
  one of the Loader's 27 columns (its stripped lowercase form is the column's name), no
  other cell of the header giving that name exactly. The key the Normalizer emits is
  \<open>h\<close> in lowercase with the whitespace kept as it was; it is none of the Loader's 27
  keys; the Record has no entry under the column's name, so \<^verbatim>\<open>medicine.get\<close> returns
  the empty string and the empty string is what the Loader binds to the column.
\<close>

theorem padded_header_loses_column:
  assumes run: "read_records (header # rows) = Inr records"
      and m: "medicine \<in> set records"
      and h: "h \<in> set header"
      and pad: "strip h \<noteq> h"
      and col: "lower (strip h) \<in> set insert_columns"
      and other: "lower (strip h) \<notin> set (map lower header)"
  shows "lower h \<in> set (dict_keys medicine)
         \<and> (\<exists>a b. h = a @ strip h @ b \<and> lower h = a @ lower (strip h) @ b
                \<and> (a \<noteq> [] \<or> b \<noteq> [])
                \<and> list_all isspace a \<and> list_all isspace b)
         \<and> lower h \<notin> set insert_columns
         \<and> dict_get medicine (lower (strip h)) = None
         \<and> medicine_get medicine (lower (strip h)) = Some []
         \<and> map_of (zip insert_columns (insert_parameters medicine)) (lower (strip h))
             = Some (SqlText [])"
proof -
  have keys: "set (dict_keys medicine) = lower ` set header"
    using run m by (rule record_keys)
  have k: "lower h \<in> set (dict_keys medicine)" using keys h by simp
  from strip_decomp [of h] obtain a b where
    ab: "h = a @ strip h @ b" "\<forall>c \<in> set a. isspace c" "\<forall>c \<in> set b. isspace c"
    by blast
  have ne: "a \<noteq> [] \<or> b \<noteq> []" using ab(1) pad by auto
  have "lower h = lower a @ lower (strip h) @ lower b"
    by (subst ab(1)) (simp only: lower_append)
  then have low: "lower h = a @ lower (strip h) @ b"
    using ab(2,3) by (simp add: lower_whitespace)
  have nocol: "lower h \<notin> set insert_columns"
  proof
    assume "lower h \<in> set insert_columns"
    with insert_columns_unpadded
    have f: "\<not> isspace (hd (lower h))" "\<not> isspace (last (lower h))"
      by (auto simp: list_all_iff)
    from ne show False
    proof
      assume "a \<noteq> []"
      then have "hd (lower h) = hd a" by (simp add: low)
      with \<open>a \<noteq> []\<close> ab(2) f(1) show False by simp
    next
      assume "b \<noteq> []"
      then have "last (lower h) = last b" by (simp add: low)
      with \<open>b \<noteq> []\<close> ab(3) f(2) show False by simp
    qed
  qed
  have "lower (strip h) \<notin> fst ` set medicine"
    using keys other by (simp add: dict_keys_def)
  then have none: "dict_get medicine (lower (strip h)) = None"
    by (simp add: dict_get_def map_of_eq_None_iff)
  then have g: "medicine_get medicine (lower (strip h)) = Some []"
    by (simp add: medicine_get_def)
  have p: "map_of (zip insert_columns (insert_parameters medicine)) (lower (strip h))
             = Some (SqlText [])"
    using parameter_of_column [OF col, of medicine] g by (simp add: bind_parameter_def)
  from k ab(1) low ne ab(2,3) nocol none g p show ?thesis
    unfolding list_all_iff by blast
qed

theorem padded_header_loses_column_witness:
  "lower '' ProductNaam'' \<in> set (dict_keys [(''registratienummer'', Some ''REG123''),
                                            ('' productnaam'', Some ''Aspirin 500mg'')])
   \<and> lower '' ProductNaam'' = '' productnaam''
   \<and> map_of (zip insert_columns
               (insert_parameters [(''registratienummer'', Some ''REG123''),
                                   ('' productnaam'', Some ''Aspirin 500mg'')]))
        ''productnaam''
       = Some (SqlText [])"
proof -
  let ?header = "[''RegistratieNummer'', '' ProductNaam'']"
  let ?m = "[(''registratienummer'', Some ''REG123''), ('' productnaam'', Some ''Aspirin 500mg'')]"
  have run: "read_records [?header, [''REG123'', ''Aspirin 500mg '']] = Inr [?m]"
    by code_simp
  have s: "strip '' ProductNaam'' = ''ProductNaam''" by code_simp
  have l: "lower ''ProductNaam'' = ''productnaam''" by code_simp
  have l': "lower '' ProductNaam'' = '' productnaam''" by code_simp
  have lh: "map lower ?header = [''registratienummer'', '' productnaam'']" by code_simp
  have m: "?m \<in> set [?m]" by simp
  have h: "'' ProductNaam'' \<in> set ?header" by simp
  have pad: "strip '' ProductNaam'' \<noteq> '' ProductNaam''" by (simp add: s)
  have col: "lower (strip '' ProductNaam'') \<in> set insert_columns"
    by (simp add: s l insert_columns_def)
  have other: "lower (strip '' ProductNaam'') \<notin> set (map lower ?header)"
    unfolding lh by (simp add: s l)
  from padded_header_loses_column [OF run m h pad col other] s l l' show ?thesis
    by simp
qed

end
